theory Spec2Isabelle
  imports Complex_Main "HOL-Library.Log_Nat"
begin

section \<open>Data model (src/lib/supabase.ts, lines 8-24)\<close>

text \<open>
  The TypeScript interface \<open>SaleEntry\<close> becomes a record with one field per
  declared member. The string-literal unions become datatypes, and a member
  declared with \<open>?\<close> becomes an \<open>option\<close>: \<open>None\<close> is the absent
  (\<open>undefined\<close>) member.

  A TypeScript \<open>number\<close> is a double. A numeric member holds a finite double,
  given by its exact rational value (every finite double is a rational, and
  prices need not be whole); \<open>NaN\<close> and the infinities are not values of a
  member here, and the two zeros of a double are one value, as they are for
  \<open>===\<close> and for every comparison of the source.

  The function is modelled twice. \<open>calculateCommissions\<close> reads every
  \<open>-\<close>, \<open>/\<close>, \<open>*\<close> and \<open>+\<close> of the source as the exact operation on
  rationals; it is the model for the claims about the tiers, the guards, the
  thresholds, absent members and the members read. \<open>calculateCommissions_double\<close>
  computes every operation in binary64, rounding to the nearest double as the
  source does; it is the model for the claims about the values of the warranty
  commission and of the total. The two agree on the car, accessories and
  maintenance commissions (lemmas \<open>car_agree\<close>, \<open>accessories_agree\<close>,
  \<open>maintenance_agree\<close>), and on the warranty commission and the total
  whenever the warranty profit is a whole number of absolute value at most
  \<open>8 * 10^15\<close> (lemmas \<open>warranty_agree\<close>, \<open>total_agree\<close>).

  The member \<open>id\<close> is named \<open>id_field\<close>, since \<open>id\<close> is the identity
  function of HOL.
\<close>

datatype SaleType = New | Used | TradeIn

datatype SharedStatus = pending | accepted | rejected

record SaleEntry =
  id_field :: string
  user_id :: string
  stock_number :: string
  customer_name :: string
  sale_type :: SaleType
  sale_price :: rat
  accessories_price :: "rat option"
  warranty_price :: "rat option"
  warranty_cost :: "rat option"
  maintenance_price :: "rat option"
  maintenance_cost :: "rat option"
  shared_with_email :: "string option"
  shared_with_id :: "string option"
  shared_status :: "SharedStatus option"
  date :: string

text \<open>
  The object literal returned by \<open>calculateCommissions\<close> (lines 107-113).
\<close>

record CommissionBreakdown =
  carCommission :: rat
  accessoriesCommission :: rat
  warrantyCommission :: rat
  maintenanceCommission :: rat
  totalCommission :: rat

section \<open>The commission calculator with exact arithmetic (src/lib/supabase.ts, lines 68-114)\<close>

text \<open>
  JavaScript truthiness of an optional number, as tested by \<open>if (sale.f)\<close>:
  \<open>undefined\<close> and \<open>0\<close> are falsy, every other finite number is truthy.
\<close>

definition truthy :: "rat option \<Rightarrow> bool" where
  "truthy v = (case v of None \<Rightarrow> False | Some x \<Rightarrow> x \<noteq> 0)"

text \<open>
  The value read from an optional member once its guard has passed. The guard
  excludes \<open>None\<close>, so the default is never observed through a guard.
\<close>

definition num :: "rat option \<Rightarrow> rat" where
  "num v = (case v of None \<Rightarrow> 0 | Some x \<Rightarrow> x)"

text \<open>
  The four \<open>let\<close> variables start at 0 and are assigned in the branches of
  the source; each is written here as the value it holds at the \<open>return\<close>.
  \<open>Math.floor\<close> is the floor of HOL (towards minus infinity).
\<close>

definition calculateCommissions :: "SaleEntry \<Rightarrow> CommissionBreakdown" where
  "calculateCommissions sale =
    (let carCommission =
           (if sale_price sale < 10000 then 200
            else if sale_price sale < 20000 then 300
            else if sale_price sale < 30000 then 400
            else 500);
         accessoriesCommission =
           (if truthy (accessories_price sale) then
              (let threshold = (if sale_type sale = New then 988 else 488);
                   eligibleAmount = num (accessories_price sale) - threshold
               in if eligibleAmount > 800 then 100 else 0)
            else 0);
         warrantyCommission =
           (if truthy (warranty_price sale) \<and> truthy (warranty_cost sale) then
              (let profit = num (warranty_price sale) - num (warranty_cost sale)
               in of_int \<lfloor>profit / 1000\<rfloor> * 100)
            else 0);
         maintenanceCommission =
           (if truthy (maintenance_price sale) \<and> num (maintenance_price sale) > 800
            then 100 else 0);
         totalCommission =
           carCommission + accessoriesCommission + warrantyCommission + maintenanceCommission
     in \<lparr> carCommission = carCommission,
          accessoriesCommission = accessoriesCommission,
          warrantyCommission = warrantyCommission,
          maintenanceCommission = maintenanceCommission,
          totalCommission = totalCommission \<rparr>)"

section \<open>The null-check reading of the guards\<close>



section \<open>Double arithmetic\<close>

text \<open>
  The result of an operation on doubles: a finite double, an infinity or
  \<open>NaN\<close>.
\<close>

datatype number = Fin rat | PInf | NInf | NaN

text \<open>
  \<open>expo x\<close> is the binary exponent of a non-zero rational: the integer \<open>e\<close>
  with \<open>2^e \<le> |x| < 2^(e+1)\<close> (lemma \<open>expo_bounds\<close>).
\<close>

definition expo :: "rat \<Rightarrow> int" where
  "expo x =
    (let r = \<bar>x\<bar>
     in if 1 \<le> r then bitlen \<lfloor>r\<rfloor> - 1 else - bitlen (\<lceil>1 / r\<rceil> - 1))"

text \<open>
  Rounding to the nearest integer, a tie going to the even one.
\<close>

definition round_half_even :: "rat \<Rightarrow> int" where
  "round_half_even t =
    (let f = \<lfloor>t\<rfloor>; d = t - of_int f
     in if d < 1 / 2 then f
        else if 1 / 2 < d then f + 1
        else if even f then f else f + 1)"

text \<open>
  The spacing of the doubles around \<open>x\<close>: 52 fraction bits below the
  exponent, and the exponent of the subnormal doubles below \<open>2^-1022\<close>.
  \<open>to_grid\<close> rounds to the nearest multiple of that spacing;
  \<open>round_double\<close> is the binary64 rounding of an exact result (to nearest,
  ties to even), overflowing to an infinity from \<open>2^1024\<close> on.
\<close>

definition quantum :: "rat \<Rightarrow> rat" where
  "quantum x = 2 powi (max (expo x) (- 1022) - 52)"

definition to_grid :: "rat \<Rightarrow> rat" where
  "to_grid x = (if x = 0 then 0 else of_int (round_half_even (x / quantum x)) * quantum x)"

definition round_double :: "rat \<Rightarrow> number" where
  "round_double x =
    (let y = to_grid x
     in if 2 ^ 1024 \<le> y then PInf
        else if y \<le> - (2 ^ 1024) then NInf
        else Fin y)"

text \<open>
  A rational is a double when rounding leaves it unchanged.
\<close>

definition is_double :: "rat \<Rightarrow> bool" where
  "is_double x \<longleftrightarrow> round_double x = Fin x"

text \<open>
  The operators of the source on doubles. Each rounds the exact result of two
  finite operands; the other cases are those of IEEE 754. In \<open>js_div\<close> a
  zero divisor is read as \<open>+0\<close>; the source divides by the literal 1000
  only. \<open>Math.floor\<close> of a finite double is exact.
\<close>

fun js_add :: "number \<Rightarrow> number \<Rightarrow> number" where
  "js_add (Fin x) (Fin y) = round_double (x + y)"
| "js_add NaN _ = NaN"
| "js_add _ NaN = NaN"
| "js_add PInf NInf = NaN"
| "js_add NInf PInf = NaN"
| "js_add PInf _ = PInf"
| "js_add _ PInf = PInf"
| "js_add NInf _ = NInf"
| "js_add _ NInf = NInf"

fun js_sub :: "number \<Rightarrow> number \<Rightarrow> number" where
  "js_sub (Fin x) (Fin y) = round_double (x - y)"
| "js_sub NaN _ = NaN"
| "js_sub _ NaN = NaN"
| "js_sub PInf PInf = NaN"
| "js_sub NInf NInf = NaN"
| "js_sub PInf _ = PInf"
| "js_sub _ PInf = NInf"
| "js_sub NInf _ = NInf"
| "js_sub _ NInf = PInf"

fun js_mul :: "number \<Rightarrow> number \<Rightarrow> number" where
  "js_mul (Fin x) (Fin y) = round_double (x * y)"
| "js_mul NaN _ = NaN"
| "js_mul _ NaN = NaN"
| "js_mul (Fin x) PInf = (if x = 0 then NaN else if 0 < x then PInf else NInf)"
| "js_mul (Fin x) NInf = (if x = 0 then NaN else if 0 < x then NInf else PInf)"
| "js_mul PInf (Fin y) = (if y = 0 then NaN else if 0 < y then PInf else NInf)"
| "js_mul NInf (Fin y) = (if y = 0 then NaN else if 0 < y then NInf else PInf)"
| "js_mul PInf PInf = PInf"
| "js_mul NInf NInf = PInf"
| "js_mul PInf NInf = NInf"
| "js_mul NInf PInf = NInf"

fun js_div :: "number \<Rightarrow> number \<Rightarrow> number" where
  "js_div (Fin x) (Fin y) =
     (if y = 0 then (if x = 0 then NaN else if 0 < x then PInf else NInf)
      else round_double (x / y))"
| "js_div NaN _ = NaN"
| "js_div _ NaN = NaN"
| "js_div (Fin x) _ = Fin 0"
| "js_div PInf (Fin y) = (if 0 \<le> y then PInf else NInf)"
| "js_div NInf (Fin y) = (if 0 \<le> y then NInf else PInf)"
| "js_div _ _ = NaN"

fun js_floor :: "number \<Rightarrow> number" where
  "js_floor (Fin x) = Fin (of_int \<lfloor>x\<rfloor>)"
| "js_floor v = v"

fun js_lt :: "number \<Rightarrow> number \<Rightarrow> bool" where
  "js_lt (Fin x) (Fin y) = (x < y)"
| "js_lt NaN _ = False"
| "js_lt _ NaN = False"
| "js_lt _ NInf = False"
| "js_lt PInf _ = False"
| "js_lt _ _ = True"

definition js_gt :: "number \<Rightarrow> number \<Rightarrow> bool" where
  "js_gt a b = js_lt b a"

section \<open>The commission calculator with double arithmetic (src/lib/supabase.ts, lines 68-114)\<close>

text \<open>
  The object literal returned by \<open>calculateCommissions\<close>, its fields
  holding the results of double operations, and the function, branch by branch
  as in the source: \<open>profit\<close> is the rounded difference,
  \<open>warrantyCommission\<close> is \<open>Math.floor(profit / 1000) * 100\<close> with the
  quotient and the product rounded, and \<open>totalCommission\<close> is the sum taken
  from left to right, each \<open>+\<close> rounded.
\<close>

record DoubleBreakdown =
  carCommission_d :: number
  accessoriesCommission_d :: number
  warrantyCommission_d :: number
  maintenanceCommission_d :: number
  totalCommission_d :: number

definition calculateCommissions_double :: "SaleEntry \<Rightarrow> DoubleBreakdown" where
  "calculateCommissions_double sale =
    (let carCommission =
           (if sale_price sale < 10000 then Fin 200
            else if sale_price sale < 20000 then Fin 300
            else if sale_price sale < 30000 then Fin 400
            else Fin 500);
         accessoriesCommission =
           (if truthy (accessories_price sale) then
              (let threshold = (if sale_type sale = New then Fin 988 else Fin 488);
                   eligibleAmount = js_sub (Fin (num (accessories_price sale))) threshold
               in if js_gt eligibleAmount (Fin 800) then Fin 100 else Fin 0)
            else Fin 0);
         warrantyCommission =
           (if truthy (warranty_price sale) \<and> truthy (warranty_cost sale) then
              (let profit = js_sub (Fin (num (warranty_price sale)))
                                   (Fin (num (warranty_cost sale)))
               in js_mul (js_floor (js_div profit (Fin 1000))) (Fin 100))
            else Fin 0);
         maintenanceCommission =
           (if truthy (maintenance_price sale) \<and> num (maintenance_price sale) > 800
            then Fin 100 else Fin 0);
         totalCommission =
           js_add (js_add (js_add carCommission accessoriesCommission) warrantyCommission)
             maintenanceCommission
     in \<lparr> carCommission_d = carCommission,
          accessoriesCommission_d = accessoriesCommission,
          warrantyCommission_d = warrantyCommission,
          maintenanceCommission_d = maintenanceCommission,
          totalCommission_d = totalCommission \<rparr>)"

text \<open>
  A result that is not negative: a finite double at least 0, or plus infinity.
\<close>

fun nonneg :: "number \<Rightarrow> bool" where
  "nonneg (Fin y) = (0 \<le> y)"
| "nonneg PInf = True"
| "nonneg NInf = False"
| "nonneg NaN = False"

section \<open>Concrete sales\<close>

text \<open>
  A sale with every optional member absent, and variants of it built by record
  update: a warranty sold at a loss (the specification's example, profit -500),
  at a larger loss (profit -4500), at a profit (profit 2000), and a warranty
  with cost basis 0.
\<close>

definition plain_sale :: SaleEntry where
  "plain_sale =
    \<lparr> id_field = ''s1'', user_id = ''u1'', stock_number = ''A100'',
      customer_name = ''Ann'', sale_type = Used, sale_price = 5000,
      accessories_price = None, warranty_price = None, warranty_cost = None,
      maintenance_price = None, maintenance_cost = None,
      shared_with_email = None, shared_with_id = None, shared_status = None,
      date = ''2024-01-15'' \<rparr>"

definition loss_sale :: SaleEntry where
  "loss_sale = plain_sale\<lparr>warranty_price := Some 500, warranty_cost := Some 1000\<rparr>"

definition deep_loss_sale :: SaleEntry where
  "deep_loss_sale = plain_sale\<lparr>warranty_price := Some 500, warranty_cost := Some 5000\<rparr>"

definition profit_sale :: SaleEntry where
  "profit_sale = plain_sale\<lparr>warranty_price := Some 2500, warranty_cost := Some 500\<rparr>"


text \<open>
  A sale of a new car with every member the calculator reads present, and a
  second sale that agrees with it on those members and differs on the others.
\<close>

definition full_sale :: SaleEntry where
  "full_sale =
    \<lparr> id_field = ''s2'', user_id = ''u1'', stock_number = ''B200'',
      customer_name = ''Bob'', sale_type = New, sale_price = 25000,
      accessories_price = Some 1889, warranty_price = Some 2500,
      warranty_cost = Some 500, maintenance_price = Some 801,
      maintenance_cost = Some 300, shared_with_email = None,
      shared_with_id = None, shared_status = None, date = ''2024-02-01'' \<rparr>"

definition full_sale_relabelled :: SaleEntry where
  "full_sale_relabelled =
    \<lparr> id_field = ''s3'', user_id = ''u2'', stock_number = ''C300'',
      customer_name = ''Cy'', sale_type = New, sale_price = 25000,
      accessories_price = Some 1889, warranty_price = Some 2500,
      warranty_cost = Some 500, maintenance_price = Some 801,
      maintenance_cost = None, shared_with_email = Some ''dee@example.com'',
      shared_with_id = Some ''u9'', shared_status = Some pending,
      date = ''2025-03-09'' \<rparr>"

text \<open>
  Two sales with a very large warranty price: \<open>2e20\<close> against a cost of
  \<open>1e20\<close>, and \<open>4e17\<close> against a cost of 1000.
\<close>

definition huge_warranty_sale :: SaleEntry where
  "huge_warranty_sale =
     plain_sale\<lparr>warranty_price := Some 200000000000000000000,
                 warranty_cost := Some 100000000000000000000\<rparr>"

definition large_warranty_sale :: SaleEntry where
  "large_warranty_sale =
     plain_sale\<lparr>warranty_price := Some 400000000000000000, warranty_cost := Some 1000\<rparr>"

text \<open>
  A sale with prices in cents: the doubles that the decimals \<open>1000.01\<close> and
  \<open>0.01\<close> denote.
\<close>

definition double_1000_01 :: rat where
  "double_1000_01 = 4398090491569111 / 4398046511104"

definition double_0_01 :: rat where
  "double_0_01 = 5764607523034235 / 576460752303423488"

definition cents_sale :: SaleEntry where
  "cents_sale =
     plain_sale\<lparr>warranty_price := Some double_1000_01, warranty_cost := Some double_0_01\<rparr>"

section \<open>Component lemmas\<close>

text \<open>Each field of the result, as a function of the members it is computed from.\<close>

lemma car_of: "carCommission (calculateCommissions s) =
    (if sale_price s < 10000 then 200
     else if sale_price s < 20000 then 300
     else if sale_price s < 30000 then 400 else 500)"
  by (simp add: calculateCommissions_def Let_def)

lemma accessories_of: "accessoriesCommission (calculateCommissions s) =
    (if truthy (accessories_price s) \<and>
        num (accessories_price s) - (if sale_type s = New then 988 else 488) > 800
     then 100 else 0)"
  by (simp add: calculateCommissions_def Let_def)

lemma warranty_of: "warrantyCommission (calculateCommissions s) =
    (if truthy (warranty_price s) \<and> truthy (warranty_cost s)
     then of_int \<lfloor>(num (warranty_price s) - num (warranty_cost s)) / 1000\<rfloor> * 100
     else 0)"
  by (simp add: calculateCommissions_def Let_def)

lemma maintenance_of: "maintenanceCommission (calculateCommissions s) =
    (if truthy (maintenance_price s) \<and> num (maintenance_price s) > 800 then 100 else 0)"
  by (simp add: calculateCommissions_def Let_def)

lemma total_of: "totalCommission (calculateCommissions s) =
    carCommission (calculateCommissions s) + accessoriesCommission (calculateCommissions s)
    + warrantyCommission (calculateCommissions s) + maintenanceCommission (calculateCommissions s)"
  by (simp add: calculateCommissions_def Let_def)









section \<open>Rounding to the nearest double\<close>

subsection \<open>The binary exponent\<close>

lemma two_powi_pos: "0 < (2::rat) powi e"
  by simp

lemma two_powi_nat: "0 \<le> e \<Longrightarrow> (2::rat) powi e = 2 ^ nat e"
  by (simp add: power_int_def)

lemma two_powi_neg: "e \<le> 0 \<Longrightarrow> (2::rat) powi e = 1 / 2 ^ nat (- e)"
  by (cases "e = 0") (simp_all add: power_int_def field_simps)

lemma two_powi_mono: "a \<le> b \<Longrightarrow> (2::rat) powi a \<le> 2 powi b"
  by (rule power_int_increasing) simp_all

lemma two_powi_strict_mono: "a < b \<Longrightarrow> (2::rat) powi a < 2 powi b"
  by (rule power_int_strict_increasing) simp_all

lemma two_powi_add: "(2::rat) powi (a + b) = 2 powi a * 2 powi b"
  by (rule power_int_add) simp

lemma bitlen_bounds_rat:
  assumes "0 < n"
  shows "(2::rat) ^ nat (bitlen n - 1) \<le> of_int n" and "of_int n + 1 \<le> (2::rat) ^ nat (bitlen n)"
proof -
  from bitlen_bounds [OF assms]
  have lo: "2 ^ nat (bitlen n - 1) \<le> n" and hi: "n < 2 ^ nat (bitlen n)" by simp_all
  from lo have "(of_int (2 ^ nat (bitlen n - 1)) :: rat) \<le> of_int n"
    by (simp only: of_int_le_iff)
  then show "(2::rat) ^ nat (bitlen n - 1) \<le> of_int n" by simp
  from hi have "n + 1 \<le> 2 ^ nat (bitlen n)" by simp
  then have "(of_int (n + 1) :: rat) \<le> of_int (2 ^ nat (bitlen n))"
    by (simp only: of_int_le_iff)
  then show "of_int n + 1 \<le> (2::rat) ^ nat (bitlen n)" by simp
qed

lemma bitlen_ge_one: "0 < n \<Longrightarrow> 1 \<le> bitlen n"
  by (simp add: bitlen_alt_def)

lemma expo_bounds:
  assumes "x \<noteq> 0"
  shows "2 powi expo x \<le> \<bar>x\<bar>" and "\<bar>x\<bar> < 2 powi (expo x + 1)"
proof -
  let ?r = "\<bar>x\<bar>"
  from assms have rpos: "0 < ?r" by simp
  have "2 powi expo x \<le> ?r \<and> ?r < 2 powi (expo x + 1)"
  proof (cases "1 \<le> ?r")
    case True
    let ?n = "\<lfloor>?r\<rfloor>"
    from True have npos: "0 < ?n" by simp
    have e: "expo x = bitlen ?n - 1" using True by (simp add: expo_def)
    from bitlen_ge_one [OF npos] have ge: "0 \<le> bitlen ?n - 1" by simp
    have "2 powi (bitlen ?n - 1) = (2::rat) ^ nat (bitlen ?n - 1)"
      using ge by (rule two_powi_nat)
    also have "\<dots> \<le> of_int ?n" by (rule bitlen_bounds_rat(1) [OF npos])
    also have "\<dots> \<le> ?r" by (rule of_int_floor_le)
    finally have lo: "2 powi expo x \<le> ?r" by (simp only: e)
    have "?r < of_int ?n + 1" by linarith
    also have "\<dots> \<le> (2::rat) ^ nat (bitlen ?n)" by (rule bitlen_bounds_rat(2) [OF npos])
    also have "\<dots> = 2 powi (bitlen ?n)"
      using ge by (simp add: two_powi_nat)
    finally have hi: "?r < 2 powi (expo x + 1)" by (simp add: e)
    from lo hi show ?thesis ..
  next
    case False
    then have r1: "?r < 1" by simp
    let ?m = "\<lceil>1 / ?r\<rceil> - 1"
    from r1 rpos have inv: "1 < 1 / ?r" by simp
    then have "1 < \<lceil>1 / ?r\<rceil>" by (simp add: less_ceiling_iff)
    then have mpos: "0 < ?m" by simp
    have e: "expo x = - bitlen ?m" using False by (simp add: expo_def)
    from bitlen_ge_one [OF mpos] have ge: "1 \<le> bitlen ?m" .
    have "1 / ?r \<le> of_int \<lceil>1 / ?r\<rceil>" by (rule le_of_int_ceiling)
    also have "\<dots> = of_int ?m + 1" by simp
    also have "\<dots> \<le> (2::rat) ^ nat (bitlen ?m)" by (rule bitlen_bounds_rat(2) [OF mpos])
    finally have a: "1 / ?r \<le> (2::rat) ^ nat (bitlen ?m)" .
    have p: "(0::rat) < 2 ^ nat (bitlen ?m)" by simp
    from a rpos p have "1 / (2::rat) ^ nat (bitlen ?m) \<le> ?r"
      by (simp add: field_simps)
    moreover have "2 powi (- bitlen ?m) = 1 / (2::rat) ^ nat (bitlen ?m)"
      using ge two_powi_neg [of "- bitlen ?m"] by simp
    ultimately have lo: "2 powi expo x \<le> ?r" by (simp only: e)
    have "(2::rat) ^ nat (bitlen ?m - 1) \<le> of_int ?m" by (rule bitlen_bounds_rat(1) [OF mpos])
    also have "of_int ?m < 1 / ?r"
      using ceiling_correct [of "1 / ?r"] by simp
    finally have b: "(2::rat) ^ nat (bitlen ?m - 1) < 1 / ?r" .
    have p': "(0::rat) < 2 ^ nat (bitlen ?m - 1)" by simp
    from b rpos p' have "?r < 1 / (2::rat) ^ nat (bitlen ?m - 1)"
      by (simp add: field_simps)
    moreover have "2 powi (- bitlen ?m + 1) = 1 / (2::rat) ^ nat (bitlen ?m - 1)"
      using ge two_powi_neg [of "- bitlen ?m + 1"] by simp
    ultimately have hi: "?r < 2 powi (expo x + 1)" by (simp only: e)
    from lo hi show ?thesis ..
  qed
  then show "2 powi expo x \<le> \<bar>x\<bar>" and "\<bar>x\<bar> < 2 powi (expo x + 1)" by simp_all
qed

lemma expo_eqI:
  assumes "2 powi e \<le> \<bar>x\<bar>" and "\<bar>x\<bar> < 2 powi (e + 1)"
  shows "expo x = e"
proof -
  have "0 < \<bar>x\<bar>"
    using assms(1) two_powi_pos [of e] by linarith
  then have nz: "x \<noteq> 0" by simp
  note b = expo_bounds [OF nz]
  have "\<not> expo x < e"
  proof
    assume "expo x < e"
    then have "expo x + 1 \<le> e" by simp
    then have "(2::rat) powi (expo x + 1) \<le> 2 powi e" by (rule two_powi_mono)
    with b(2) assms(1) show False by linarith
  qed
  moreover have "\<not> e < expo x"
  proof
    assume "e < expo x"
    then have "e + 1 \<le> expo x" by simp
    then have "(2::rat) powi (e + 1) \<le> 2 powi expo x" by (rule two_powi_mono)
    with b(1) assms(2) show False by linarith
  qed
  ultimately show ?thesis by simp
qed

subsection \<open>The rounded value is nearest among the doubles\<close>

text \<open>
  \<open>to_grid x\<close> is at least as close to \<open>x\<close> as any \<open>m * 2^j\<close> with at
  most 53 bits in \<open>m\<close> and \<open>j\<close> not below the subnormal exponent. Hence a
  double is rounded to itself, rounding never crosses a double, and whole
  numbers round to whole numbers.
\<close>

lemma round_half_even_nearest:
  "\<bar>of_int (round_half_even t) - t\<bar> \<le> \<bar>of_int z - t\<bar>"
proof -
  let ?f = "\<lfloor>t\<rfloor>"
  have lo: "of_int ?f \<le> t" and hi: "t < of_int ?f + 1" by linarith+
  have z: "(of_int z :: rat) \<le> of_int ?f \<or> of_int ?f + 1 \<le> (of_int z :: rat)"
  proof (cases "z \<le> ?f")
    case True
    then have "(of_int z :: rat) \<le> of_int ?f" by (simp only: of_int_le_iff)
    then show ?thesis ..
  next
    case False
    then have "?f + 1 \<le> z" by simp
    then have "(of_int (?f + 1) :: rat) \<le> of_int z" by (simp only: of_int_le_iff)
    then show ?thesis by simp
  qed
  show ?thesis
  proof (cases "t - of_int ?f < 1 / 2")
    case True
    then have "round_half_even t = ?f" by (simp add: round_half_even_def Let_def)
    with True lo hi z show ?thesis by linarith
  next
    case nlt: False
    have up: "(of_int (?f + 1) :: rat) = of_int ?f + 1" by simp
    show ?thesis
    proof (cases "1 / 2 < t - of_int ?f")
      case True
      with nlt have "round_half_even t = ?f + 1" by (simp add: round_half_even_def Let_def)
      with True lo hi z up show ?thesis by linarith
    next
      case False
      with nlt have half: "t - of_int ?f = 1 / 2" by linarith
      have "round_half_even t = ?f \<or> round_half_even t = ?f + 1"
        using half by (simp add: round_half_even_def Let_def)
      with half lo hi z up show ?thesis by (elim disjE) linarith+
    qed
  qed
qed

lemma quantum_pos: "0 < quantum x"
  by (simp add: quantum_def)

lemma to_grid_step:
  assumes "x \<noteq> 0"
  shows "\<bar>to_grid x - x\<bar> \<le> \<bar>of_int z * quantum x - x\<bar>"
proof -
  let ?q = "quantum x"
  let ?t = "x / ?q"
  let ?n = "round_half_even ?t"
  have q: "0 < ?q" by (rule quantum_pos)
  then have xq: "?t * ?q = x" by simp
  have tg: "to_grid x = of_int ?n * ?q" using assms by (simp add: to_grid_def)
  have "to_grid x - x = of_int ?n * ?q - ?t * ?q" by (simp only: tg xq)
  also have "\<dots> = (of_int ?n - ?t) * ?q" by (simp only: left_diff_distrib)
  finally have "\<bar>to_grid x - x\<bar> = \<bar>of_int ?n - ?t\<bar> * ?q"
    using q by (simp only: abs_mult abs_of_pos)
  also have "\<dots> \<le> \<bar>of_int z - ?t\<bar> * ?q"
    using q round_half_even_nearest [of ?t z] by (simp only: mult_right_mono less_imp_le)
  also have "\<dots> = \<bar>(of_int z - ?t) * ?q\<bar>"
    using q by (simp only: abs_mult abs_of_pos)
  also have "(of_int z - ?t) * ?q = of_int z * ?q - x"
    by (simp only: left_diff_distrib xq)
  finally show ?thesis .
qed

lemma to_grid_nearest:
  assumes m: "\<bar>m\<bar> \<le> 2 ^ 53" and j: "- 1074 \<le> j"
  shows "\<bar>to_grid x - x\<bar> \<le> \<bar>of_int m * 2 powi j - x\<bar>"
proof (cases "x = 0")
  case True
  then show ?thesis by (simp add: to_grid_def)
next
  case nz: False
  let ?e = "max (expo x) (- 1022)"
  let ?q = "quantum x"
  have qdef: "?q = 2 powi (?e - 52)" by (simp add: quantum_def)
  show ?thesis
  proof (cases "?e - 52 \<le> j")
    case True
    let ?z = "m * 2 ^ nat (j - (?e - 52))"
    have "(2::rat) powi j = 2 powi ((j - (?e - 52)) + (?e - 52))" by simp
    also have "\<dots> = 2 powi (j - (?e - 52)) * 2 powi (?e - 52)" by (rule two_powi_add)
    also have "2 powi (j - (?e - 52)) = (2::rat) ^ nat (j - (?e - 52))"
      using True by (intro two_powi_nat) simp
    finally have "of_int m * 2 powi j = of_int ?z * ?q"
      by (simp only: qdef of_int_mult of_int_power of_int_numeral mult.assoc)
    then show ?thesis by (simp only: to_grid_step [OF nz])
  next
    case False
    then have lt: "j < ?e - 52" by simp
    with j have e: "?e = expo x" by (simp add: max_def split: if_splits)
    from expo_bounds(1) [OF nz] have lo: "2 powi ?e \<le> \<bar>x\<bar>" by (simp only: e)
    have r: "\<bar>of_int m * (2::rat) powi j\<bar> \<le> 2 powi ?e"
    proof -
      have "\<bar>of_int m * (2::rat) powi j\<bar> = \<bar>of_int m\<bar> * 2 powi j"
        by (simp add: abs_mult)
      also have "\<dots> \<le> 2 ^ 53 * 2 powi j"
      proof (rule mult_right_mono)
        from m have "(of_int \<bar>m\<bar> :: rat) \<le> of_int (2 ^ 53)" by (simp only: of_int_le_iff)
        then show "\<bar>of_int m :: rat\<bar> \<le> 2 ^ 53" by simp
      qed simp
      also have "\<dots> = 2 powi (53 + j)" by (simp add: two_powi_add)
      also have "\<dots> \<le> 2 powi ?e" using lt by (intro two_powi_mono) simp
      finally show ?thesis .
    qed
    have grid: "2 ^ 52 * ?q = (2::rat) powi ?e"
    proof -
      have "(2::rat) powi ?e = 2 powi (52 + (?e - 52))" by simp
      also have "\<dots> = 2 powi 52 * 2 powi (?e - 52)" by (rule two_powi_add)
      finally show ?thesis by (simp add: qdef)
    qed
    show ?thesis
    proof (cases "0 < x")
      case True
      have "\<bar>to_grid x - x\<bar> \<le> \<bar>of_int (2 ^ 52) * ?q - x\<bar>"
        by (rule to_grid_step [OF nz])
      also have "of_int (2 ^ 52) * ?q = 2 powi ?e" using grid by simp
      finally show ?thesis using lo r True by linarith
    next
      case False
      have "\<bar>to_grid x - x\<bar> \<le> \<bar>of_int (- (2 ^ 52)) * ?q - x\<bar>"
        by (rule to_grid_step [OF nz])
      also have "of_int (- (2 ^ 52)) * ?q = - (2 powi ?e)" using grid by simp
      finally show ?thesis using lo r False nz by linarith
    qed
  qed
qed

lemma to_grid_exact:
  assumes "\<bar>m\<bar> \<le> 2 ^ 53" and "- 1074 \<le> j"
  shows "to_grid (of_int m * 2 powi j) = of_int m * 2 powi j"
  using to_grid_nearest [OF assms, of "of_int m * 2 powi j"] by simp

lemma to_grid_lower:
  assumes "\<bar>m\<bar> \<le> 2 ^ 53" and "- 1074 \<le> j" and "of_int m * 2 powi j \<le> x"
  shows "of_int m * 2 powi j \<le> to_grid x"
  using to_grid_nearest [OF assms(1,2), of x] assms(3) by linarith

lemma to_grid_upper:
  assumes "\<bar>m\<bar> \<le> 2 ^ 53" and "- 1074 \<le> j" and "x \<le> of_int m * 2 powi j"
  shows "to_grid x \<le> of_int m * 2 powi j"
  using to_grid_nearest [OF assms(1,2), of x] assms(3) by linarith

lemma to_grid_int_exact:
  assumes "\<bar>n\<bar> \<le> 2 ^ 53"
  shows "to_grid (of_int n) = of_int n"
  using to_grid_exact [OF assms, of 0] by simp

lemma to_grid_int_lower:
  assumes "\<bar>n\<bar> \<le> 2 ^ 53" and "of_int n \<le> x"
  shows "of_int n \<le> to_grid x"
  using to_grid_lower [OF assms(1), of 0 x] assms(2) by simp

lemma to_grid_int_upper:
  assumes "\<bar>n\<bar> \<le> 2 ^ 53" and "x \<le> of_int n"
  shows "to_grid x \<le> of_int n"
  using to_grid_upper [OF assms(1), of 0 x] assms(2) by simp

lemma to_grid_nonneg: "0 \<le> x \<Longrightarrow> 0 \<le> to_grid x"
  using to_grid_int_lower [of 0 x] by simp

lemma to_grid_nonpos: "x \<le> 0 \<Longrightarrow> to_grid x \<le> 0"
  using to_grid_int_upper [of 0 x] by simp

lemma to_grid_Ints:
  assumes "x \<in> \<int>"
  shows "to_grid x \<in> \<int>"
proof (cases "x = 0")
  case True
  then show ?thesis by (simp add: to_grid_def)
next
  case nz: False
  let ?e = "max (expo x) (- 1022)"
  show ?thesis
  proof (cases "52 \<le> ?e")
    case True
    then have "quantum x = (2::rat) ^ nat (?e - 52)"
      unfolding quantum_def by (intro two_powi_nat) simp
    also have "\<dots> = of_int (2 ^ nat (?e - 52))" by simp
    finally have "quantum x \<in> \<int>" by (simp only: Ints_of_int)
    then show ?thesis using nz by (simp add: to_grid_def)
  next
    case False
    then have "expo x + 1 \<le> 52" by simp
    then have "(2::rat) powi (expo x + 1) \<le> 2 powi 52" by (rule two_powi_mono)
    with expo_bounds(2) [OF nz] have b: "\<bar>x\<bar> < 2 ^ 52" by simp
    from assms obtain k :: int where k: "x = of_int k" by (auto elim: Ints_cases)
    from b have "(of_int \<bar>k\<bar> :: rat) < of_int (2 ^ 52)" by (simp add: k)
    then have "\<bar>k\<bar> < 2 ^ 52" by (simp only: of_int_less_iff)
    then have "\<bar>k\<bar> \<le> 2 ^ 53" by simp
    then have "to_grid (of_int k) = of_int k" by (rule to_grid_int_exact)
    then show ?thesis by (simp add: k)
  qed
qed

lemma round_double_Fin:
  assumes "\<bar>to_grid x\<bar> < 2 ^ 1024"
  shows "round_double x = Fin (to_grid x)"
proof -
  from assms have "\<not> 2 ^ 1024 \<le> to_grid x" and "\<not> to_grid x \<le> - (2 ^ 1024)"
    by (simp_all only: abs_less_iff not_le) linarith+
  then show ?thesis by (simp only: round_double_def Let_def if_False)
qed

lemma round_double_int:
  assumes "\<bar>n\<bar> \<le> 2 ^ 53"
  shows "round_double (of_int n) = Fin (of_int n)"
proof -
  have g: "to_grid (of_int n) = of_int n" by (rule to_grid_int_exact [OF assms])
  from assms have "(of_int \<bar>n\<bar> :: rat) \<le> of_int (2 ^ 53)" by (simp only: of_int_le_iff)
  then have "\<bar>of_int n :: rat\<bar> \<le> 2 ^ 53" by simp
  also have "(2::rat) ^ 53 < 2 ^ 1024" by (rule power_strict_increasing) simp_all
  finally have "\<bar>to_grid (of_int n)\<bar> < 2 ^ 1024" by (simp only: g)
  from round_double_Fin [OF this] show ?thesis by (simp only: g)
qed

subsection \<open>Evaluating a rounding\<close>

lemma floor_rat_numeral: "\<lfloor>numeral a / numeral b :: rat\<rfloor> = numeral a div numeral b"
  using floor_divide_of_int_eq [of "numeral a" "numeral b", where ?'a = rat] by simp

lemma floor_rat_neg_numeral:
  "\<lfloor>- (numeral a / numeral b) :: rat\<rfloor> = - numeral a div numeral b"
  using floor_divide_of_int_eq [of "- numeral a" "numeral b", where ?'a = rat] by simp

lemma floor_rat_one_numeral: "\<lfloor>1 / numeral b :: rat\<rfloor> = 1 div numeral b"
  using floor_divide_of_int_eq [of 1 "numeral b", where ?'a = rat] by simp

lemma floor_rat_neg_one_numeral: "\<lfloor>- (1 / numeral b) :: rat\<rfloor> = - 1 div numeral b"
  using floor_divide_of_int_eq [of "- 1" "numeral b", where ?'a = rat] by simp

lemmas eval_simps = round_half_even_def Let_def floor_rat_numeral floor_rat_neg_numeral
  floor_rat_one_numeral floor_rat_neg_one_numeral

lemma to_grid_eval:
  assumes "2 powi e \<le> \<bar>x\<bar>" and "\<bar>x\<bar> < 2 powi (e + 1)"
  shows "to_grid x =
    of_int (round_half_even (x / 2 powi (max e (- 1022) - 52))) * 2 powi (max e (- 1022) - 52)"
proof -
  have "expo x = e" by (rule expo_eqI [OF assms])
  moreover have "0 < \<bar>x\<bar>" using assms(1) two_powi_pos [of e] by linarith
  ultimately show ?thesis by (simp add: to_grid_def quantum_def)
qed

lemma round_double_cases:
  "round_double x = PInf \<or> round_double x = NInf \<or> round_double x = Fin (to_grid x)"
  by (simp add: round_double_def Let_def)

lemma round_double_Fin_iff: "round_double x = Fin y \<Longrightarrow> y = to_grid x"
  by (simp add: round_double_def Let_def split: if_splits)

lemma round_double_eval:
  assumes "2 powi e \<le> \<bar>x\<bar>" and "\<bar>x\<bar> < 2 powi (e + 1)"
  shows "round_double x =
    (let y = of_int (round_half_even (x / 2 powi (max e (- 1022) - 52)))
               * 2 powi (max e (- 1022) - 52)
     in if 2 ^ 1024 \<le> y then PInf else if y \<le> - (2 ^ 1024) then NInf else Fin y)"
  by (simp only: round_double_def to_grid_eval [OF assms])

lemma is_double_eval:
  assumes "2 powi e \<le> \<bar>x\<bar>" and "\<bar>x\<bar> < 2 powi (e + 1)"
  shows "is_double x \<longleftrightarrow>
    (let y = of_int (round_half_even (x / 2 powi (max e (- 1022) - 52)))
               * 2 powi (max e (- 1022) - 52)
     in if 2 ^ 1024 \<le> y then PInf else if y \<le> - (2 ^ 1024) then NInf else Fin y) = Fin x"
  by (simp only: is_double_def round_double_eval [OF assms])

section \<open>Lemmas on the double model\<close>

text \<open>Each field of the result, as a function of the members it is computed from.\<close>

lemma car_d_of: "carCommission_d (calculateCommissions_double s) =
    (if sale_price s < 10000 then Fin 200
     else if sale_price s < 20000 then Fin 300
     else if sale_price s < 30000 then Fin 400 else Fin 500)"
  by (simp add: calculateCommissions_double_def Let_def)

lemma accessories_d_of: "accessoriesCommission_d (calculateCommissions_double s) =
    (if truthy (accessories_price s) \<and>
        js_gt (js_sub (Fin (num (accessories_price s)))
                 (if sale_type s = New then Fin 988 else Fin 488)) (Fin 800)
     then Fin 100 else Fin 0)"
  by (simp add: calculateCommissions_double_def Let_def)

lemma warranty_d_of: "warrantyCommission_d (calculateCommissions_double s) =
    (if truthy (warranty_price s) \<and> truthy (warranty_cost s)
     then js_mul (js_floor (js_div (js_sub (Fin (num (warranty_price s)))
                                           (Fin (num (warranty_cost s)))) (Fin 1000)))
            (Fin 100)
     else Fin 0)"
  by (simp add: calculateCommissions_double_def Let_def)

lemma maintenance_d_of: "maintenanceCommission_d (calculateCommissions_double s) =
    (if truthy (maintenance_price s) \<and> num (maintenance_price s) > 800
     then Fin 100 else Fin 0)"
  by (simp add: calculateCommissions_double_def Let_def)

lemma total_d_of: "totalCommission_d (calculateCommissions_double s) =
    js_add (js_add (js_add (carCommission_d (calculateCommissions_double s))
                           (accessoriesCommission_d (calculateCommissions_double s)))
                   (warrantyCommission_d (calculateCommissions_double s)))
           (maintenanceCommission_d (calculateCommissions_double s))"
  by (simp add: calculateCommissions_double_def Let_def)

lemma car_d_int: "\<exists>c::int. carCommission_d (calculateCommissions_double s) = Fin (of_int c)
    \<and> c \<in> {200, 300, 400, 500}"
proof -
  define c :: int where "c = (if sale_price s < 10000 then 200
     else if sale_price s < 20000 then 300
     else if sale_price s < 30000 then 400 else 500)"
  have "carCommission_d (calculateCommissions_double s) = Fin (of_int c)"
    by (simp add: car_d_of c_def)
  moreover have "c \<in> {200, 300, 400, 500}" by (simp add: c_def)
  ultimately show ?thesis by blast
qed

lemma accessories_d_int: "\<exists>a::int. accessoriesCommission_d (calculateCommissions_double s) = Fin (of_int a)
    \<and> a \<in> {0, 100}"
proof -
  have "accessoriesCommission_d (calculateCommissions_double s) = Fin (of_int 100)
      \<or> accessoriesCommission_d (calculateCommissions_double s) = Fin (of_int 0)"
    by (simp add: accessories_d_of)
  then show ?thesis by (elim disjE; intro exI conjI) auto
qed

lemma maintenance_d_int: "\<exists>m::int. maintenanceCommission_d (calculateCommissions_double s) = Fin (of_int m)
    \<and> m \<in> {0, 100}"
proof -
  have "maintenanceCommission_d (calculateCommissions_double s) = Fin (of_int 100)
      \<or> maintenanceCommission_d (calculateCommissions_double s) = Fin (of_int 0)"
    by (simp add: maintenance_d_of)
  then show ?thesis by (elim disjE; intro exI conjI) auto
qed

lemma mul100_cases:
  assumes "v = PInf \<or> v = NInf \<or> (\<exists>q. v = Fin q)"
  shows "js_mul (js_floor v) (Fin 100) = PInf \<or> js_mul (js_floor v) (Fin 100) = NInf
    \<or> (\<exists>k::int. js_mul (js_floor v) (Fin 100) = Fin (to_grid (of_int (k * 100))))"
proof -
  from assms consider "v = PInf" | "v = NInf" | q where "v = Fin q" by blast
  then show ?thesis
  proof cases
    case 3
    have "js_mul (js_floor v) (Fin 100) = round_double (of_int (\<lfloor>q\<rfloor> * 100))"
      by (simp add: 3)
    with round_double_cases [of "of_int (\<lfloor>q\<rfloor> * 100)"] show ?thesis by metis
  qed simp_all
qed

lemma div1000_cases:
  assumes "v = PInf \<or> v = NInf \<or> (\<exists>p. v = Fin p)"
  shows "js_div v (Fin 1000) = PInf \<or> js_div v (Fin 1000) = NInf
    \<or> (\<exists>q. js_div v (Fin 1000) = Fin q)"
proof -
  from assms consider "v = PInf" | "v = NInf" | p where "v = Fin p" by blast
  then show ?thesis
  proof cases
    case 3
    with round_double_cases [of "p / 1000"] show ?thesis by auto
  qed simp_all
qed

lemma sub_cases:
  "js_sub (Fin x) (Fin y) = PInf \<or> js_sub (Fin x) (Fin y) = NInf
    \<or> (\<exists>p. js_sub (Fin x) (Fin y) = Fin p)"
  using round_double_cases [of "x - y"] by auto

lemma warranty_d_cases:
  "warrantyCommission_d (calculateCommissions_double s) = PInf
   \<or> warrantyCommission_d (calculateCommissions_double s) = NInf
   \<or> (\<exists>k::int. warrantyCommission_d (calculateCommissions_double s)
          = Fin (to_grid (of_int (k * 100))))"
proof (cases "truthy (warranty_price s) \<and> truthy (warranty_cost s)")
  case True
  then have "warrantyCommission_d (calculateCommissions_double s) =
     js_mul (js_floor (js_div (js_sub (Fin (num (warranty_price s)))
                                           (Fin (num (warranty_cost s)))) (Fin 1000)))
            (Fin 100)"
    by (simp add: warranty_d_of)
  with mul100_cases [OF div1000_cases [OF sub_cases]] show ?thesis by simp
next
  case False
  then have "warrantyCommission_d (calculateCommissions_double s) = Fin (to_grid (of_int (0 * 100)))"
    by (auto simp add: warranty_d_of to_grid_def)
  then show ?thesis by blast
qed

lemma to_grid_small_int:
  assumes "\<bar>to_grid (of_int n)\<bar> \<le> 9000000000000000"
  shows "to_grid (of_int n) = of_int n"
proof (cases "\<bar>n\<bar> \<le> 2 ^ 53")
  case True
  then show ?thesis by (rule to_grid_int_exact)
next
  case False
  then consider "2 ^ 53 \<le> n" | "n \<le> - (2 ^ 53)" by linarith
  then have "False"
  proof cases
    case 1
    then have "(of_int (2 ^ 53) :: rat) \<le> of_int n" by (simp only: of_int_le_iff)
    then have "(of_int (2 ^ 53) :: rat) \<le> to_grid (of_int n)"
      by (intro to_grid_int_lower) simp_all
    with assms show False by simp
  next
    case 2
    then have "(of_int n :: rat) \<le> of_int (- (2 ^ 53))" by (simp only: of_int_le_iff)
    then have "to_grid (of_int n) \<le> (of_int (- (2 ^ 53)) :: rat)"
      by (intro to_grid_int_upper) simp_all
    with assms show False by simp
  qed
  then show ?thesis ..
qed

lemma js_add_int_exact:
  assumes "\<bar>a + b\<bar> \<le> 2 ^ 53"
  shows "js_add (Fin (of_int a)) (Fin (of_int b)) = Fin (of_int (a + b))"
  using round_double_int [OF assms] by simp

lemma js_add_Fin_args:
  assumes "js_add a b = Fin z"
  shows "\<exists>x y. a = Fin x \<and> b = Fin y"
  using assms by (cases a; cases b) simp_all

lemma js_add_Ints:
  assumes "js_add (Fin x) (Fin y) = Fin z" and "x \<in> \<int>" and "y \<in> \<int>"
  shows "z \<in> \<int>"
proof -
  from assms(1) have "z = to_grid (x + y)" by (simp add: round_double_Fin_iff)
  with assms(2,3) show ?thesis by (simp add: to_grid_Ints)
qed

lemma warranty_d_Ints:
  assumes "warrantyCommission_d (calculateCommissions_double s) = Fin w"
  shows "w \<in> \<int>"
  using warranty_d_cases [of s] assms by (auto simp add: to_grid_Ints simp del: of_int_mult)

lemma warranty_d_small:
  assumes "warrantyCommission_d (calculateCommissions_double s) = Fin w"
    and "\<bar>w\<bar> \<le> 9000000000000000"
  shows "\<exists>k::int. w = of_int k * 100 \<and> \<bar>k * 100\<bar> \<le> 9000000000000000"
proof -
  from warranty_d_cases [of s] assms(1) obtain k :: int
    where w: "w = to_grid (of_int (k * 100))" by auto
  from assms(2) have "to_grid (of_int (k * 100)) = of_int (k * 100)"
    unfolding w by (rule to_grid_small_int)
  then have eq: "w = of_int (k * 100)" by (simp only: w)
  with assms(2) have "(of_int \<bar>k * 100\<bar> :: rat) \<le> of_int 9000000000000000" by simp
  then have "\<bar>k * 100\<bar> \<le> 9000000000000000" by (simp only: of_int_le_iff)
  with eq show ?thesis by auto
qed

lemma total_d_small:
  assumes "warrantyCommission_d (calculateCommissions_double s) = Fin (of_int n)"
    and "\<bar>n\<bar> \<le> 9000000000000000"
    and "carCommission_d (calculateCommissions_double s) = Fin (of_int c)"
    and "c \<in> {200, 300, 400, 500}"
    and "accessoriesCommission_d (calculateCommissions_double s) = Fin (of_int a)"
    and "a \<in> {0, 100}"
    and "maintenanceCommission_d (calculateCommissions_double s) = Fin (of_int m)"
    and "m \<in> {0, 100}"
  shows "totalCommission_d (calculateCommissions_double s) = Fin (of_int (c + a + n + m))"
proof -
  have 1: "js_add (Fin (of_int c)) (Fin (of_int a)) = Fin (of_int (c + a))"
    using assms(4,6) by (intro js_add_int_exact) auto
  have 2: "js_add (Fin (of_int (c + a))) (Fin (of_int n)) = Fin (of_int (c + a + n))"
    using assms(2,4,6) by (intro js_add_int_exact) auto
  have 3: "js_add (Fin (of_int (c + a + n))) (Fin (of_int m)) = Fin (of_int (c + a + n + m))"
    using assms(2,4,6,8) by (intro js_add_int_exact) auto
  show ?thesis
    by (simp only: total_d_of [of s] assms(1,3,5,7) 1 2 3)
qed

lemma total_d_Ints:
  assumes "totalCommission_d (calculateCommissions_double s) = Fin t"
  shows "t \<in> \<int>"
proof -
  obtain c :: int where c: "carCommission_d (calculateCommissions_double s) = Fin (of_int c)"
    using car_d_int [of s] by blast
  obtain a :: int where a: "accessoriesCommission_d (calculateCommissions_double s) = Fin (of_int a)"
    using accessories_d_int [of s] by blast
  obtain m :: int where m: "maintenanceCommission_d (calculateCommissions_double s) = Fin (of_int m)"
    using maintenance_d_int [of s] by blast
  let ?w = "warrantyCommission_d (calculateCommissions_double s)"
  from assms have t: "js_add (js_add (js_add (Fin (of_int c)) (Fin (of_int a))) ?w) (Fin (of_int m)) = Fin t"
    by (simp only: total_d_of [of s] c a m)
  from js_add_Fin_args [OF t] obtain y where y: "js_add (js_add (Fin (of_int c)) (Fin (of_int a))) ?w = Fin y"
    by blast
  from js_add_Fin_args [OF y] obtain x w where x: "js_add (Fin (of_int c)) (Fin (of_int a)) = Fin x"
    and w: "?w = Fin w" by blast
  have "x \<in> \<int>" by (rule js_add_Ints [OF x]) simp_all
  moreover have "w \<in> \<int>" by (rule warranty_d_Ints [OF w])
  moreover from y have "js_add (Fin x) (Fin w) = Fin y" by (simp only: x w)
  ultimately have yi: "y \<in> \<int>" by (simp only: js_add_Ints)
  from t have "js_add (Fin y) (Fin (of_int m)) = Fin t" by (simp only: y)
  from js_add_Ints [OF this yi] show ?thesis by simp
qed

lemma round_double_nonneg:
  assumes "0 \<le> x"
  shows "nonneg (round_double x)"
proof -
  from assms have g: "0 \<le> to_grid x" by (rule to_grid_nonneg)
  have "(0::rat) < 2 ^ 1024" by simp
  with g have "\<not> to_grid x \<le> - (2 ^ 1024)" by linarith
  with g show ?thesis by (simp only: round_double_def Let_def if_False nonneg.simps split: if_split) simp
qed

lemma nonneg_div1000: "nonneg v \<Longrightarrow> nonneg (js_div v (Fin 1000))"
  by (cases v) (simp_all add: round_double_nonneg)

lemma nonneg_floor: "nonneg v \<Longrightarrow> nonneg (js_floor v)"
  by (cases v) simp_all

lemma nonneg_mul100: "nonneg v \<Longrightarrow> nonneg (js_mul v (Fin 100))"
  by (cases v) (simp_all add: round_double_nonneg)

lemma nonneg_add: "nonneg a \<Longrightarrow> nonneg b \<Longrightarrow> nonneg (js_add a b)"
  by (cases a; cases b) (simp_all add: round_double_nonneg)

lemma nonneg_not_lt: "nonneg v \<Longrightarrow> \<not> js_lt v (Fin 0)"
  by (cases v) simp_all

lemma not_lt_nonneg: "\<not> js_lt v (Fin 0) \<Longrightarrow> v \<noteq> NaN \<Longrightarrow> nonneg v"
  by (cases v) simp_all

lemma warranty_d_not_NaN: "warrantyCommission_d (calculateCommissions_double s) \<noteq> NaN"
  using warranty_d_cases [of s] by auto

lemma warranty_d_nonneg:
  assumes "\<not> (truthy (warranty_price s) \<and> truthy (warranty_cost s)
    \<and> num (warranty_price s) < num (warranty_cost s))"
  shows "nonneg (warrantyCommission_d (calculateCommissions_double s))"
proof (cases "truthy (warranty_price s) \<and> truthy (warranty_cost s)")
  case True
  with assms have "0 \<le> num (warranty_price s) - num (warranty_cost s)" by simp
  then have "nonneg (js_sub (Fin (num (warranty_price s))) (Fin (num (warranty_cost s))))"
    by (simp add: round_double_nonneg)
  then have "nonneg (js_mul (js_floor (js_div (js_sub (Fin (num (warranty_price s)))
      (Fin (num (warranty_cost s)))) (Fin 1000))) (Fin 100))"
    by (intro nonneg_mul100 nonneg_floor nonneg_div1000)
  with True show ?thesis by (simp add: warranty_d_of)
next
  case False
  then show ?thesis by (auto simp add: warranty_d_of)
qed

lemma total_d_nonneg:
  assumes "nonneg (warrantyCommission_d (calculateCommissions_double s))"
  shows "nonneg (totalCommission_d (calculateCommissions_double s))"
proof -
  have "nonneg (carCommission_d (calculateCommissions_double s))"
    using car_d_int [of s] by auto
  moreover have "nonneg (accessoriesCommission_d (calculateCommissions_double s))"
    using accessories_d_int [of s] by auto
  moreover have "nonneg (maintenanceCommission_d (calculateCommissions_double s))"
    using maintenance_d_int [of s] by auto
  ultimately show ?thesis
    using assms by (simp only: total_d_of [of s] nonneg_add)
qed

lemma quotient_floor:
  fixes p :: int
  assumes "\<bar>p\<bar> \<le> 8000000000000000"
  shows "\<lfloor>to_grid (of_int p / 1000)\<rfloor> = p div 1000"
    and "\<bar>to_grid (of_int p / 1000)\<bar> < 2 ^ 1024"
proof -
  let ?k = "p div 1000"
  let ?q = "of_int p / 1000 :: rat"
  have p: "p = 1000 * ?k + p mod 1000" by simp
  have r: "0 \<le> p mod 1000" "p mod 1000 \<le> 999" by simp_all
  from assms have k: "\<bar>?k\<bar> \<le> 8000000000001" by linarith
  have pr: "(of_int p :: rat) = 1000 * of_int ?k + of_int (p mod 1000)"
    using arg_cong [OF p, of "of_int :: int \<Rightarrow> rat"]
    by (simp only: of_int_add of_int_mult of_int_numeral)
  have q: "?q = of_int ?k + of_int (p mod 1000) / 1000"
    by (simp add: pr add_divide_distrib)
  have r0: "(0::rat) \<le> of_int (p mod 1000)" using r(1) by (simp only: of_int_0_le_iff)
  have "(of_int (p mod 1000) :: rat) \<le> of_int 999" using r(2) by (simp only: of_int_le_iff)
  then have r1: "(of_int (p mod 1000) :: rat) \<le> 999" by simp
  have lo: "of_int ?k \<le> ?q" using r0 by (simp add: q)
  let ?m = "(?k + 1) * 1024 - 1"
  have b: "of_int ?m * (2::rat) powi (- 10) = of_int ?k + 1 - 1 / 1024"
    by (simp add: power_int_minus field_simps)
  have hi: "?q \<le> of_int ?m * 2 powi (- 10)"
    using r1 by (simp add: b q)
  have mb: "\<bar>?m\<bar> \<le> 2 ^ 53" using k by simp
  have kb: "\<bar>?k\<bar> \<le> 2 ^ 53" using k by simp
  have g1: "of_int ?k \<le> to_grid ?q" by (rule to_grid_int_lower [OF kb lo])
  have "to_grid ?q \<le> of_int ?m * 2 powi (- 10)"
    by (rule to_grid_upper [OF mb _ hi]) simp
  then have g2: "to_grid ?q < of_int ?k + 1" unfolding b by linarith
  from g1 g2 show "\<lfloor>to_grid ?q\<rfloor> = ?k" by (rule floor_unique)
  have "(of_int \<bar>?k\<bar> :: rat) \<le> of_int 8000000000001" using k by (simp only: of_int_le_iff)
  then have kk: "\<bar>of_int ?k :: rat\<bar> \<le> 8000000000001" by simp
  from g1 g2 kk have "\<bar>to_grid ?q\<bar> < 8000000000002" by linarith
  also have "(8000000000002::rat) < 2 ^ 1024" by simp
  finally show "\<bar>to_grid ?q\<bar> < 2 ^ 1024" .
qed

lemma warranty_d_exact:
  fixes p :: int
  assumes t: "truthy (warranty_price s)" "truthy (warranty_cost s)"
    and d: "num (warranty_price s) - num (warranty_cost s) = of_int p"
    and b: "\<bar>p\<bar> \<le> 8000000000000000"
  shows "warrantyCommission_d (calculateCommissions_double s) = Fin (of_int (p div 1000) * 100)"
proof -
  from b have "\<bar>p\<bar> \<le> 2 ^ 53" by simp
  then have 1: "js_sub (Fin (num (warranty_price s))) (Fin (num (warranty_cost s))) = Fin (of_int p)"
    by (simp add: d round_double_int)
  have 2: "js_div (Fin (of_int p)) (Fin 1000) = Fin (to_grid (of_int p / 1000))"
    using round_double_Fin [OF quotient_floor(2) [OF b]] by simp
  have 3: "js_floor (Fin (to_grid (of_int p / 1000))) = Fin (of_int (p div 1000))"
    by (simp add: quotient_floor(1) [OF b])
  from b have "\<bar>p div 1000 * 100\<bar> \<le> 2 ^ 53" by simp
  from round_double_int [OF this]
  have 4: "js_mul (Fin (of_int (p div 1000))) (Fin 100) = Fin (of_int (p div 1000) * 100)"
    by simp
  show ?thesis using t by (simp only: warranty_d_of 1 2 3 4) simp
qed

lemma to_grid_abs_le:
  assumes "- 1074 \<le> j" and "\<bar>x\<bar> \<le> 2 powi j"
  shows "\<bar>to_grid x\<bar> \<le> 2 powi j"
proof -
  have "to_grid x \<le> of_int 1 * 2 powi j"
    using assms by (intro to_grid_upper) simp_all
  moreover have "of_int (- 1) * 2 powi j \<le> to_grid x"
    using assms by (intro to_grid_lower) simp_all
  ultimately show ?thesis by simp
qed

lemma round_double_bounded:
  assumes "- 1074 \<le> j" and "j < 1024" and "\<bar>x\<bar> \<le> 2 powi j"
  shows "round_double x = Fin (to_grid x)" and "\<bar>to_grid x\<bar> \<le> 2 powi j"
proof -
  show b: "\<bar>to_grid x\<bar> \<le> 2 powi j" by (rule to_grid_abs_le [OF assms(1,3)])
  have "(2::rat) powi j < 2 powi 1024" using assms(2) by (rule two_powi_strict_mono)
  with b have "\<bar>to_grid x\<bar> < 2 ^ 1024" by simp
  then show "round_double x = Fin (to_grid x)" by (rule round_double_Fin)
qed

lemma floor_abs_le:
  fixes x :: rat and b :: int
  assumes "\<bar>x\<bar> \<le> of_int b"
  shows "\<bar>\<lfloor>x\<rfloor>\<bar> \<le> b"
proof -
  from assms have "of_int (- b) \<le> x" and "x \<le> of_int b" by simp_all
  then have "- b \<le> \<lfloor>x\<rfloor>" and "\<lfloor>x\<rfloor> < b + 1"
    by (simp_all only: le_floor_iff floor_less_iff of_int_add of_int_1)
  then show ?thesis by simp
qed

lemma warranty_chain_bounded:
  assumes j: "0 \<le> j" "j + 7 < 1024" and x: "\<bar>x\<bar> \<le> 2 powi j"
  shows "\<exists>w. js_mul (js_floor (js_div (round_double x) (Fin 1000))) (Fin 100) = Fin w
    \<and> \<bar>w\<bar> \<le> 2 powi (j + 7)"
proof -
  from j have j1: "- 1074 \<le> j" "j < 1024" by simp_all
  let ?p = "to_grid x"
  note p = round_double_bounded [OF j1 x]
  have "\<bar>?p / 1000\<bar> \<le> \<bar>?p\<bar>" by simp
  with p(2) have "\<bar>?p / 1000\<bar> \<le> 2 powi j" by linarith
  note q = round_double_bounded [OF j1 this]
  let ?q = "to_grid (?p / 1000)"
  have pw: "(2::rat) powi j = of_int (2 ^ nat j)" using j(1) by (simp add: two_powi_nat)
  from q(2) have "\<bar>\<lfloor>?q\<rfloor>\<bar> \<le> 2 ^ nat j" unfolding pw by (rule floor_abs_le)
  then have "(of_int \<bar>\<lfloor>?q\<rfloor>\<bar> :: rat) \<le> of_int (2 ^ nat j)" by (simp only: of_int_le_iff)
  then have k: "\<bar>of_int \<lfloor>?q\<rfloor> :: rat\<bar> \<le> 2 powi j" by (simp add: pw)
  have "\<bar>of_int \<lfloor>?q\<rfloor> * 100 :: rat\<bar> = \<bar>of_int \<lfloor>?q\<rfloor>\<bar> * 100" by (simp add: abs_mult)
  also have "\<dots> \<le> 2 powi j * 100" using k by simp
  also have "\<dots> \<le> 2 powi j * 2 powi 7" by simp
  also have "\<dots> = 2 powi (j + 7)" by (simp only: two_powi_add)
  finally have "\<bar>of_int \<lfloor>?q\<rfloor> * 100 :: rat\<bar> \<le> 2 powi (j + 7)" .
  moreover from j have "- 1074 \<le> j + 7" by simp
  ultimately have w: "round_double (of_int \<lfloor>?q\<rfloor> * 100) = Fin (to_grid (of_int \<lfloor>?q\<rfloor> * 100))"
      "\<bar>to_grid (of_int \<lfloor>?q\<rfloor> * 100)\<bar> \<le> 2 powi (j + 7)"
    using j(2) by (simp_all only: round_double_bounded)
  have "js_mul (js_floor (js_div (round_double x) (Fin 1000))) (Fin 100)
      = Fin (to_grid (of_int \<lfloor>?q\<rfloor> * 100))"
    by (simp add: p(1) q(1) w(1))
  with w(2) show ?thesis by blast
qed

lemma js_add_bounded:
  assumes j: "- 1074 \<le> j" "j + 1 < 1024" and x: "\<bar>x\<bar> \<le> 2 powi j" and y: "\<bar>y\<bar> \<le> 2 powi j"
  shows "\<exists>z. js_add (Fin x) (Fin y) = Fin z \<and> \<bar>z\<bar> \<le> 2 powi (j + 1)"
proof -
  from x y have "\<bar>x + y\<bar> \<le> 2 powi j + 2 powi j" by linarith
  also have "\<dots> = 2 powi j * 2 powi 1" by simp
  also have "\<dots> = 2 powi (j + 1)" by (simp only: two_powi_add)
  finally have "\<bar>x + y\<bar> \<le> 2 powi (j + 1)" .
  moreover from j have "- 1074 \<le> j + 1" by simp
  ultimately have "round_double (x + y) = Fin (to_grid (x + y))"
      "\<bar>to_grid (x + y)\<bar> \<le> 2 powi (j + 1)"
    using j(2) by (simp_all only: round_double_bounded)
  then show ?thesis by simp
qed

lemma small_le_two_powi:
  fixes n :: int
  assumes "\<bar>n\<bar> \<le> 1024" and "10 \<le> j"
  shows "\<bar>of_int n :: rat\<bar> \<le> 2 powi j"
proof -
  from assms(1) have "(of_int \<bar>n\<bar> :: rat) \<le> of_int 1024" by (simp only: of_int_le_iff)
  then have "\<bar>of_int n :: rat\<bar> \<le> 2 powi 10" by simp
  also have "\<dots> \<le> 2 powi j" using assms(2) by (rule two_powi_mono)
  finally show ?thesis .
qed

lemma finite_results_gen:
  assumes j: "10 \<le> j" "j + 9 < 1024"
    and x: "truthy (warranty_price s) \<and> truthy (warranty_cost s) \<Longrightarrow>
      \<bar>num (warranty_price s) - num (warranty_cost s)\<bar> \<le> 2 powi j"
  shows "\<exists>w t. warrantyCommission_d (calculateCommissions_double s) = Fin w
    \<and> totalCommission_d (calculateCommissions_double s) = Fin t"
proof -
  let ?b = "calculateCommissions_double s"
  have "\<exists>w. warrantyCommission_d ?b = Fin w \<and> \<bar>w\<bar> \<le> 2 powi (j + 7)"
  proof (cases "truthy (warranty_price s) \<and> truthy (warranty_cost s)")
    case True
    from j have "0 \<le> j" "j + 7 < 1024" by simp_all
    from warranty_chain_bounded [OF this x [OF True]] True show ?thesis
      by (simp add: warranty_d_of)
  next
    case False
    then have "warrantyCommission_d ?b = Fin 0" by (auto simp add: warranty_d_of)
    then show ?thesis by simp
  qed
  then obtain w where w: "warrantyCommission_d ?b = Fin w" and wb: "\<bar>w\<bar> \<le> 2 powi (j + 7)"
    by blast
  obtain c :: int where c: "carCommission_d ?b = Fin (of_int c)" "c \<in> {200, 300, 400, 500}"
    using car_d_int [of s] by blast
  obtain a :: int where a: "accessoriesCommission_d ?b = Fin (of_int a)" "a \<in> {0, 100}"
    using accessories_d_int [of s] by blast
  obtain m :: int where m: "maintenanceCommission_d ?b = Fin (of_int m)" "m \<in> {0, 100}"
    using maintenance_d_int [of s] by blast
  have 1: "js_add (Fin (of_int c)) (Fin (of_int a)) = Fin (of_int (c + a))"
    using c(2) a(2) by (intro js_add_int_exact) auto
  have ca: "\<bar>of_int (c + a) :: rat\<bar> \<le> 2 powi (j + 7)"
    using c(2) a(2) j(1) by (intro small_le_two_powi) auto
  from j have j7: "- 1074 \<le> j + 7" "j + 7 + 1 < 1024" by simp_all
  from js_add_bounded [OF j7 ca wb] obtain y
    where y: "js_add (Fin (of_int (c + a))) (Fin w) = Fin y" and yb: "\<bar>y\<bar> \<le> 2 powi (j + 7 + 1)"
    by blast
  have mb: "\<bar>of_int m :: rat\<bar> \<le> 2 powi (j + 7 + 1)"
    using m(2) j(1) by (intro small_le_two_powi) auto
  from j have j8: "- 1074 \<le> j + 7 + 1" "j + 7 + 1 + 1 < 1024" by simp_all
  from js_add_bounded [OF j8 yb mb] obtain t
    where t: "js_add (Fin y) (Fin (of_int m)) = Fin t" by blast
  have "totalCommission_d ?b = Fin t"
    by (simp only: total_d_of [of s] c(1) a(1) m(1) w 1 y t)
  with w show ?thesis by blast
qed

lemma car_d_mem: "carCommission_d (calculateCommissions_double s)
    \<in> {Fin 200, Fin 300, Fin 400, Fin 500}"
  by (simp add: car_d_of)

lemma accessories_d_mem: "accessoriesCommission_d (calculateCommissions_double s)
    \<in> {Fin 0, Fin 100}"
  by (simp add: accessories_d_of)

lemma maintenance_d_mem: "maintenanceCommission_d (calculateCommissions_double s)
    \<in> {Fin 0, Fin 100}"
  by (simp add: maintenance_d_of)

lemma truthy_Some: "truthy v \<longleftrightarrow> (\<exists>x. v = Some x \<and> x \<noteq> 0)"
  by (cases v) (simp_all add: truthy_def)

section \<open>Agreement of the two models\<close>

text \<open>
  The car and maintenance commissions are computed by comparisons only. The
  accessories commission compares a rounded difference with 800; for a double
  \<open>accessories_price\<close> the rounding does not change the outcome: below 801
  the difference of a double in \<open>[1024, 2048)\<close> and the threshold is itself
  a double.
\<close>

lemma car_agree: "carCommission_d (calculateCommissions_double s)
    = Fin (carCommission (calculateCommissions s))"
  by (simp add: car_d_of car_of)

lemma maintenance_agree: "maintenanceCommission_d (calculateCommissions_double s)
    = Fin (maintenanceCommission (calculateCommissions s))"
  by (simp add: maintenance_d_of maintenance_of)

lemma js_gt_round_double:
  assumes "to_grid a = a" and "t = 988 \<or> t = 488"
  shows "js_gt (round_double (a - t)) (Fin 800) \<longleftrightarrow> 800 < a - t"
proof (cases "800 < a - t")
  case False
  then have "a - t \<le> of_int 800" by simp
  then have u: "to_grid (a - t) \<le> of_int 800" by (intro to_grid_int_upper) simp_all
  have "\<not> js_gt (round_double (a - t)) (Fin 800)"
    using u by (auto simp add: js_gt_def round_double_def Let_def split: if_splits)
  with False show ?thesis by simp
next
  case True
  have g: "800 < to_grid (a - t)"
  proof (cases "801 \<le> a - t")
    case True
    then have "of_int 801 \<le> a - t" by simp
    then have "of_int 801 \<le> to_grid (a - t)" by (intro to_grid_int_lower) simp_all
    then show ?thesis by simp
  next
    case False
    with \<open>800 < a - t\<close> assms(2) have r: "1024 \<le> a" "a < 2048" by auto
    then have "2 powi 10 \<le> \<bar>a\<bar>" "\<bar>a\<bar> < 2 powi (10 + 1)" by simp_all
    then have e: "expo a = 10" by (rule expo_eqI)
    from r have "a \<noteq> 0" by simp
    then have "to_grid a = of_int (round_half_even (a / quantum a)) * 2 powi (- 42)"
      by (simp add: to_grid_def quantum_def e)
    with assms(1) obtain n :: int where a: "a = of_int n * 2 powi (- 42)" by metis
    from assms(2) obtain k :: int where k: "t = of_int k" "k = 988 \<or> k = 488" by auto
    have t: "t = of_int (k * 2 ^ 42) * 2 powi (- 42)"
      by (simp add: k(1) power_int_minus)
    have d: "a - t = of_int (n - k * 2 ^ 42) * 2 powi (- 42)"
      by (subst a, subst t) (simp only: of_int_diff left_diff_distrib)
    let ?m = "n - k * 2 ^ 42"
    have "of_int ?m = (a - t) * 2 ^ 42" by (simp add: d power_int_minus)
    with False \<open>800 < a - t\<close> have "0 < (of_int ?m :: rat)" "(of_int ?m :: rat) < 801 * 2 ^ 42"
      by simp_all
    then have "(of_int 0 :: rat) < of_int ?m" "(of_int ?m :: rat) < of_int (801 * 2 ^ 42)"
      by simp_all
    then have "0 < ?m" "?m < 801 * 2 ^ 42" by (simp_all only: of_int_less_iff)
    then have "\<bar>?m\<bar> \<le> 2 ^ 53" by simp
    then have "to_grid (of_int ?m * 2 powi (- 42)) = of_int ?m * 2 powi (- 42)"
      by (rule to_grid_exact) simp
    then have "to_grid (a - t) = a - t" by (simp only: d)
    with \<open>800 < a - t\<close> show ?thesis by simp
  qed
  have "js_gt (round_double (a - t)) (Fin 800)"
    using g by (auto simp add: js_gt_def round_double_def Let_def split: if_splits)
  with True show ?thesis by simp
qed

lemma accessories_agree:
  assumes "\<forall>ap. accessories_price s = Some ap \<longrightarrow> is_double ap"
  shows "accessoriesCommission_d (calculateCommissions_double s)
    = Fin (accessoriesCommission (calculateCommissions s))"
proof (cases "accessories_price s")
  case None
  then show ?thesis by (simp add: accessories_d_of accessories_of truthy_def)
next
  case (Some ap)
  with assms have "round_double ap = Fin ap" by (simp add: is_double_def)
  then have g: "to_grid ap = ap" by (rule round_double_Fin_iff [symmetric])
  from js_gt_round_double [OF g, of 988] js_gt_round_double [OF g, of 488]
  show ?thesis by (simp add: accessories_d_of accessories_of Some num_def)
qed

text \<open>
  On a whole-number warranty profit of absolute value at most \<open>8 * 10^15\<close>
  every double operation of the warranty computation and of the sum is exact,
  and the two models agree on the warranty commission and on the total.
\<close>

lemma warranty_agree:
  fixes p :: int
  assumes "num (warranty_price s) - num (warranty_cost s) = of_int p"
    and "\<bar>p\<bar> \<le> 8000000000000000"
  shows "warrantyCommission_d (calculateCommissions_double s)
    = Fin (warrantyCommission (calculateCommissions s))"
proof (cases "truthy (warranty_price s) \<and> truthy (warranty_cost s)")
  case True
  then have t: "truthy (warranty_price s)" "truthy (warranty_cost s)" by simp_all
  have "\<lfloor>(of_int p :: rat) / of_int 1000\<rfloor> = p div 1000" by (rule floor_divide_of_int_eq)
  then have "warrantyCommission (calculateCommissions s) = of_int (p div 1000) * 100"
    using t by (simp add: warranty_of assms(1))
  with warranty_d_exact [OF t assms] show ?thesis by simp
next
  case False
  then show ?thesis by (auto simp add: warranty_d_of warranty_of)
qed

lemma total_agree:
  fixes p :: int
  assumes "\<forall>ap. accessories_price s = Some ap \<longrightarrow> is_double ap"
    and "num (warranty_price s) - num (warranty_cost s) = of_int p"
    and "\<bar>p\<bar> \<le> 8000000000000000"
  shows "totalCommission_d (calculateCommissions_double s)
    = Fin (totalCommission (calculateCommissions s))"
proof -
  let ?b = "calculateCommissions_double s"
  let ?e = "calculateCommissions s"
  obtain c :: int where c: "carCommission_d ?b = Fin (of_int c)" "c \<in> {200, 300, 400, 500}"
    using car_d_int [of s] by blast
  obtain a :: int where a: "accessoriesCommission_d ?b = Fin (of_int a)" "a \<in> {0, 100}"
    using accessories_d_int [of s] by blast
  obtain m :: int where m: "maintenanceCommission_d ?b = Fin (of_int m)" "m \<in> {0, 100}"
    using maintenance_d_int [of s] by blast
  define n where "n = (if truthy (warranty_price s) \<and> truthy (warranty_cost s)
    then p div 1000 * 100 else 0)"
  have w: "warrantyCommission_d ?b = Fin (of_int n)"
  proof (cases "truthy (warranty_price s) \<and> truthy (warranty_cost s)")
    case True
    then have t: "truthy (warranty_price s)" "truthy (warranty_cost s)" by simp_all
    from warranty_d_exact [OF t assms(2,3)] True show ?thesis by (simp add: n_def)
  next
    case False
    then show ?thesis by (auto simp add: warranty_d_of n_def)
  qed
  from assms(3) have "\<bar>p div 1000 * 100\<bar> \<le> 9000000000000000" by simp
  then have nb: "\<bar>n\<bar> \<le> 9000000000000000" by (simp add: n_def)
  have t: "totalCommission_d ?b = Fin (of_int (c + a + n + m))"
    by (rule total_d_small [OF w nb c a m])
  have "Fin (carCommission ?e) = Fin (of_int c)" by (simp only: car_agree [symmetric] c(1))
  moreover have "Fin (accessoriesCommission ?e) = Fin (of_int a)"
    by (simp only: accessories_agree [OF assms(1), symmetric] a(1))
  moreover have "Fin (maintenanceCommission ?e) = Fin (of_int m)"
    by (simp only: maintenance_agree [symmetric] m(1))
  moreover have "Fin (warrantyCommission ?e) = Fin (of_int n)"
    by (simp only: warranty_agree [OF assms(2,3), symmetric] w)
  ultimately have "totalCommission ?e = of_int (c + a + n + m)"
    by (simp add: total_of)
  with t show ?thesis by simp
qed

section \<open>Evaluations\<close>

lemma huge_steps:
  "js_sub (Fin 200000000000000000000) (Fin 100000000000000000000) = Fin 100000000000000000000"
  "js_div (Fin 100000000000000000000) (Fin 1000) = Fin 100000000000000000"
  "js_mul (Fin 100000000000000000) (Fin 100) = Fin 10000000000000000000"
  "js_add (Fin 200) (Fin 0) = Fin 200"
  "js_add (Fin 200) (Fin 10000000000000000000) = Fin 10000000000000000000"
  "js_add (Fin 10000000000000000000) (Fin 0) = Fin 10000000000000000000"
proof -
  show "js_sub (Fin 200000000000000000000) (Fin 100000000000000000000) = Fin 100000000000000000000"
    by (simp only: js_sub.simps, subst round_double_eval [of 66]) (simp_all add: eval_simps)
  show "js_div (Fin 100000000000000000000) (Fin 1000) = Fin 100000000000000000"
    by (simp only: js_div.simps, simp, subst round_double_eval [of 56]) (simp_all add: eval_simps)
  show "js_mul (Fin 100000000000000000) (Fin 100) = Fin 10000000000000000000"
    by (simp only: js_mul.simps, subst round_double_eval [of 63]) (simp_all add: eval_simps)
  show "js_add (Fin 200) (Fin 0) = Fin 200"
    by (simp only: js_add.simps, subst round_double_eval [of 7]) (simp_all add: eval_simps)
  show "js_add (Fin 200) (Fin 10000000000000000000) = Fin 10000000000000000000"
    by (simp only: js_add.simps, subst round_double_eval [of 63]) (simp_all add: eval_simps)
  show "js_add (Fin 10000000000000000000) (Fin 0) = Fin 10000000000000000000"
    by (simp only: js_add.simps, subst round_double_eval [of 63]) (simp_all add: eval_simps)
qed

lemma eval_huge_warranty: "calculateCommissions_double huge_warranty_sale =
    \<lparr> carCommission_d = Fin 200, accessoriesCommission_d = Fin 0,
      warrantyCommission_d = Fin 10000000000000000000,
      maintenanceCommission_d = Fin 0, totalCommission_d = Fin 10000000000000000000 \<rparr>"
  by (simp add: calculateCommissions_double_def huge_warranty_sale_def plain_sale_def
      truthy_def num_def Let_def huge_steps
      del: js_add.simps js_sub.simps js_mul.simps js_div.simps)

lemma large_steps:
  "js_sub (Fin 400000000000000000) (Fin 1000) = Fin 399999999999998976"
  "js_div (Fin 399999999999998976) (Fin 1000) = Fin 399999999999999"
  "js_mul (Fin 399999999999999) (Fin 100) = Fin 39999999999999904"
  "js_add (Fin 200) (Fin 39999999999999904) = Fin 40000000000000104"
  "js_add (Fin 40000000000000104) (Fin 0) = Fin 40000000000000104"
proof -
  show "js_sub (Fin 400000000000000000) (Fin 1000) = Fin 399999999999998976"
    by (simp only: js_sub.simps, subst round_double_eval [of 58]) (simp_all add: eval_simps)
  show "js_div (Fin 399999999999998976) (Fin 1000) = Fin 399999999999999"
    by (simp only: js_div.simps, simp, subst round_double_eval [of 48]) (simp_all add: eval_simps)
  show "js_mul (Fin 399999999999999) (Fin 100) = Fin 39999999999999904"
    by (simp only: js_mul.simps, subst round_double_eval [of 55]) (simp_all add: eval_simps)
  show "js_add (Fin 200) (Fin 39999999999999904) = Fin 40000000000000104"
    by (simp only: js_add.simps, subst round_double_eval [of 55]) (simp_all add: eval_simps)
  show "js_add (Fin 40000000000000104) (Fin 0) = Fin 40000000000000104"
    by (simp only: js_add.simps, subst round_double_eval [of 55]) (simp_all add: eval_simps)
qed

lemma eval_large_warranty: "calculateCommissions_double large_warranty_sale =
    \<lparr> carCommission_d = Fin 200, accessoriesCommission_d = Fin 0,
      warrantyCommission_d = Fin 39999999999999904,
      maintenanceCommission_d = Fin 0, totalCommission_d = Fin 40000000000000104 \<rparr>"
  by (simp add: calculateCommissions_double_def large_warranty_sale_def plain_sale_def
      truthy_def num_def Let_def large_steps huge_steps(4)
      del: js_add.simps js_sub.simps js_mul.simps js_div.simps)

lemma cents_are_doubles:
  "round_double (100001 / 100) = Fin double_1000_01"
  "round_double (1 / 100) = Fin double_0_01"
proof -
  show "round_double (100001 / 100) = Fin double_1000_01"
    unfolding double_1000_01_def
    by (subst round_double_eval [of 9]) (simp_all add: eval_simps)
  show "round_double (1 / 100) = Fin double_0_01"
    unfolding double_0_01_def
    by (subst round_double_eval [of "- 7"]) (simp_all add: eval_simps)
qed

lemma cents_steps:
  "js_sub (Fin double_1000_01) (Fin double_0_01) = Fin 1000"
  "js_div (Fin 1000) (Fin 1000) = Fin 1"
  "js_mul (Fin 1) (Fin 100) = Fin 100"
proof -
  show "js_sub (Fin double_1000_01) (Fin double_0_01) = Fin 1000"
    unfolding double_1000_01_def double_0_01_def
    by (simp only: js_sub.simps, subst round_double_eval [of 9]) (simp_all add: eval_simps)
  show "js_div (Fin 1000) (Fin 1000) = Fin 1"
    by (simp only: js_div.simps, simp, subst round_double_eval [of 0]) (simp_all add: eval_simps)
  show "js_mul (Fin 1) (Fin 100) = Fin 100"
    by (simp only: js_mul.simps, subst round_double_eval [of 6]) (simp_all add: eval_simps)
qed

lemma eval_cents_warranty:
  "warrantyCommission_d (calculateCommissions_double cents_sale) = Fin 100"
proof -
  have nz: "double_1000_01 \<noteq> 0" "double_0_01 \<noteq> 0"
    by (simp_all add: double_1000_01_def double_0_01_def)
  show ?thesis
    by (simp add: warranty_d_of cents_sale_def plain_sale_def truthy_def num_def nz cents_steps
      del: js_add.simps js_sub.simps js_mul.simps js_div.simps)
qed

lemma cents_exact_floor: "\<lfloor>(double_1000_01 - double_0_01) / 1000\<rfloor> = 0"
  by (simp add: double_1000_01_def double_0_01_def eval_simps)

lemma large_inputs_are_doubles:
  "is_double 200000000000000000000"
  "is_double 100000000000000000000"
  "is_double 400000000000000000"
  "is_double 1000"
proof -
  show "is_double 200000000000000000000"
    by (subst is_double_eval [of 67]) (simp_all add: eval_simps)
  show "is_double 100000000000000000000"
    by (subst is_double_eval [of 66]) (simp_all add: eval_simps)
  show "is_double 400000000000000000"
    by (subst is_double_eval [of 58]) (simp_all add: eval_simps)
  show "is_double 1000"
    by (subst is_double_eval [of 9]) (simp_all add: eval_simps)
qed

lemma cents_inputs_are_doubles: "is_double double_1000_01" "is_double double_0_01"
proof -
  show "is_double double_1000_01"
    unfolding double_1000_01_def
    by (subst is_double_eval [of 9]) (simp_all add: eval_simps)
  show "is_double double_0_01"
    unfolding double_0_01_def
    by (subst is_double_eval [of "- 7"]) (simp_all add: eval_simps)
qed

lemma eval_deep_loss_d: "calculateCommissions_double deep_loss_sale =
    \<lparr> carCommission_d = Fin 200, accessoriesCommission_d = Fin 0,
      warrantyCommission_d = Fin (- 500),
      maintenanceCommission_d = Fin 0, totalCommission_d = Fin (- 300) \<rparr>"
proof -
  let ?b = "calculateCommissions_double deep_loss_sale"
  have w: "warrantyCommission_d ?b = Fin (of_int (- 500))"
    using warranty_d_exact [of deep_loss_sale "- 4500"]
    by (simp add: deep_loss_sale_def plain_sale_def truthy_def num_def)
  have c: "carCommission_d ?b = Fin (of_int 200)"
    by (simp add: car_d_of deep_loss_sale_def plain_sale_def)
  have a: "accessoriesCommission_d ?b = Fin (of_int 0)"
    by (simp add: accessories_d_of deep_loss_sale_def plain_sale_def truthy_def)
  have m: "maintenanceCommission_d ?b = Fin (of_int 0)"
    by (simp add: maintenance_d_of deep_loss_sale_def plain_sale_def truthy_def)
  have t: "totalCommission_d ?b = Fin (of_int (200 + 0 + (- 500) + 0))"
    by (rule total_d_small [OF w _ c _ a _ m]) simp_all
  have "?b = \<lparr> carCommission_d = carCommission_d ?b,
      accessoriesCommission_d = accessoriesCommission_d ?b,
      warrantyCommission_d = warrantyCommission_d ?b,
      maintenanceCommission_d = maintenanceCommission_d ?b,
      totalCommission_d = totalCommission_d ?b \<rparr>" by simp
  then show ?thesis by (simp only: w c a m t) simp
qed

section \<open>Claims\<close>

text \<open>
  C1, as stated: \<open>totalCommission\<close> is the sum of the four component fields
  of the same result. Read as the exact sum, this fails when the warranty
  commission is large: with \<open>warranty_price = 2e20\<close> and
  \<open>warranty_cost = 1e20\<close> (both doubles) on a sale of price 5000 the
  components are 200, 0, \<open>1e19\<close> and 0, and the total is \<open>1e19\<close>, since
  \<open>200 + 1e19\<close> rounds to \<open>1e19\<close>.
\<close>

theorem C1_counterexample:
  "is_double 200000000000000000000 \<and> is_double 100000000000000000000
   \<and> warranty_price huge_warranty_sale = Some 200000000000000000000
   \<and> warranty_cost huge_warranty_sale = Some 100000000000000000000
   \<and> carCommission_d (calculateCommissions_double huge_warranty_sale) = Fin 200
   \<and> accessoriesCommission_d (calculateCommissions_double huge_warranty_sale) = Fin 0
   \<and> warrantyCommission_d (calculateCommissions_double huge_warranty_sale)
        = Fin 10000000000000000000
   \<and> maintenanceCommission_d (calculateCommissions_double huge_warranty_sale) = Fin 0
   \<and> totalCommission_d (calculateCommissions_double huge_warranty_sale)
        = Fin 10000000000000000000
   \<and> (10000000000000000000 :: rat) \<noteq> 200 + 0 + 10000000000000000000 + 0"
proof -
  have "warranty_price huge_warranty_sale = Some 200000000000000000000"
    "warranty_cost huge_warranty_sale = Some 100000000000000000000"
    by (simp_all add: huge_warranty_sale_def plain_sale_def)
  with large_inputs_are_doubles(1,2) show ?thesis by (simp add: eval_huge_warranty)
qed

text \<open>
  C1, amended. For every sale, \<open>totalCommission\<close> is the double sum
  \<open>((carCommission + accessoriesCommission) + warrantyCommission) +
  maintenanceCommission\<close> of the four component fields of the same result,
  each \<open>+\<close> rounded to the nearest double; whenever \<open>warrantyCommission\<close>
  is at most \<open>9 * 10^15\<close> in absolute value, it equals their exact sum. Nothing
  is assumed about the sign of the warranty profit.
\<close>

theorem C1_total_is_double_sum:
  "totalCommission_d (calculateCommissions_double s) =
     js_add (js_add (js_add (carCommission_d (calculateCommissions_double s))
                            (accessoriesCommission_d (calculateCommissions_double s)))
                    (warrantyCommission_d (calculateCommissions_double s)))
            (maintenanceCommission_d (calculateCommissions_double s))
   \<and> (\<forall>w. warrantyCommission_d (calculateCommissions_double s) = Fin w
          \<and> \<bar>w\<bar> \<le> 9000000000000000 \<longrightarrow>
        (\<exists>c a m. carCommission_d (calculateCommissions_double s) = Fin c
           \<and> accessoriesCommission_d (calculateCommissions_double s) = Fin a
           \<and> maintenanceCommission_d (calculateCommissions_double s) = Fin m
           \<and> totalCommission_d (calculateCommissions_double s) = Fin (c + a + w + m)))"
proof (intro conjI allI impI)
  show "totalCommission_d (calculateCommissions_double s) =
     js_add (js_add (js_add (carCommission_d (calculateCommissions_double s))
                            (accessoriesCommission_d (calculateCommissions_double s)))
                    (warrantyCommission_d (calculateCommissions_double s)))
            (maintenanceCommission_d (calculateCommissions_double s))"
    by (rule total_d_of)
next
  fix w
  let ?b = "calculateCommissions_double s"
  assume h: "warrantyCommission_d ?b = Fin w \<and> \<bar>w\<bar> \<le> 9000000000000000"
  then have w: "warrantyCommission_d ?b = Fin w" and wb: "\<bar>w\<bar> \<le> 9000000000000000"
    by simp_all
  from warranty_d_small [OF w wb] obtain k :: int
    where k: "w = of_int k * 100" and kb: "\<bar>k * 100\<bar> \<le> 9000000000000000" by blast
  from k have w': "warrantyCommission_d ?b = Fin (of_int (k * 100))" by (simp add: w)
  obtain c :: int where c: "carCommission_d ?b = Fin (of_int c)" "c \<in> {200, 300, 400, 500}"
    using car_d_int [of s] by blast
  obtain a :: int where a: "accessoriesCommission_d ?b = Fin (of_int a)" "a \<in> {0, 100}"
    using accessories_d_int [of s] by blast
  obtain m :: int where m: "maintenanceCommission_d ?b = Fin (of_int m)" "m \<in> {0, 100}"
    using maintenance_d_int [of s] by blast
  have "totalCommission_d ?b = Fin (of_int (c + a + k * 100 + m))"
    by (rule total_d_small [OF w' kb c a m])
  then have "totalCommission_d ?b = Fin (of_int c + of_int a + w + of_int m)"
    by (simp add: k)
  with c(1) a(1) m(1) show "\<exists>c a m. carCommission_d ?b = Fin c
           \<and> accessoriesCommission_d ?b = Fin a
           \<and> maintenanceCommission_d ?b = Fin m
           \<and> totalCommission_d ?b = Fin (c + a + w + m)" by blast
qed

theorem C1_total_is_double_sum_witness:
  "warrantyCommission_d (calculateCommissions_double deep_loss_sale) = Fin (- 500)
   \<and> totalCommission_d (calculateCommissions_double deep_loss_sale)
        = Fin (200 + 0 + (- 500) + 0)"
proof -
  let ?b = "calculateCommissions_double deep_loss_sale"
  have w: "warrantyCommission_d ?b = Fin (- 500)" by (simp add: eval_deep_loss_d)
  have "\<bar>- 500 :: rat\<bar> \<le> 9000000000000000" by simp
  with C1_total_is_double_sum [of deep_loss_sale] w obtain c a m
    where "carCommission_d ?b = Fin c" "accessoriesCommission_d ?b = Fin a"
      "maintenanceCommission_d ?b = Fin m" "totalCommission_d ?b = Fin (c + a + (- 500) + m)"
    by blast
  then show ?thesis by (simp add: eval_deep_loss_d)
qed

text \<open>
  C2, as stated: with both warranty members present and non-zero,
  \<open>warrantyCommission\<close> is \<open>floor((warranty_price - warranty_cost) / 1000)
  * 100\<close>. Read with the exact difference and quotient, this fails for prices
  in cents: for the doubles \<open>1000.01\<close> and \<open>0.01\<close> the exact difference is
  just below 1000, so the formula gives 0, while the difference of the doubles
  rounds to 1000 and the source returns 100.
\<close>

theorem C2_counterexample:
  "round_double (100001 / 100) = Fin double_1000_01
   \<and> round_double (1 / 100) = Fin double_0_01
   \<and> is_double double_1000_01 \<and> is_double double_0_01
   \<and> warranty_price cents_sale = Some double_1000_01
   \<and> warranty_cost cents_sale = Some double_0_01
   \<and> warrantyCommission_d (calculateCommissions_double cents_sale) = Fin 100
   \<and> of_int \<lfloor>(double_1000_01 - double_0_01) / 1000\<rfloor> * 100 = (0 :: rat)"
proof (intro conjI)
  show "round_double (100001 / 100) = Fin double_1000_01" by (rule cents_are_doubles(1))
  show "round_double (1 / 100) = Fin double_0_01" by (rule cents_are_doubles(2))
  show "is_double double_1000_01" by (rule cents_inputs_are_doubles(1))
  show "is_double double_0_01" by (rule cents_inputs_are_doubles(2))
  show "warranty_price cents_sale = Some double_1000_01"
    by (simp add: cents_sale_def plain_sale_def)
  show "warranty_cost cents_sale = Some double_0_01"
    by (simp add: cents_sale_def plain_sale_def)
  show "warrantyCommission_d (calculateCommissions_double cents_sale) = Fin 100"
    by (rule eval_cents_warranty)
  show "of_int \<lfloor>(double_1000_01 - double_0_01) / 1000\<rfloor> * 100 = (0 :: rat)"
    by (simp add: cents_exact_floor)
qed

text \<open>
  C2, amended. For every sale in which \<open>warranty_price\<close> and
  \<open>warranty_cost\<close> are both present and non-zero, \<open>warrantyCommission\<close> is
  \<open>Math.floor((warranty_price - warranty_cost) / 1000) * 100\<close> in double
  arithmetic: the difference, the quotient and the product are each rounded to
  the nearest double. Whenever \<open>warranty_price - warranty_cost\<close> is a whole
  number of absolute value at most \<open>8 * 10^15\<close>, this is exactly
  \<open>floor((warranty_price - warranty_cost) / 1000) * 100\<close>, the floor being
  the greatest integer not above the quotient (rounding towards minus
  infinity); with \<open>warranty_price = 500\<close> and \<open>warranty_cost = 1000\<close> the
  result is -100, not 0.
\<close>

theorem C2_warranty_double:
  assumes "warranty_price s = Some wp" and "warranty_cost s = Some wc"
    and "wp \<noteq> 0" and "wc \<noteq> 0"
  shows "warrantyCommission_d (calculateCommissions_double s) =
      js_mul (js_floor (js_div (js_sub (Fin wp) (Fin wc)) (Fin 1000))) (Fin 100)
    \<and> (wp - wc \<in> \<int> \<and> \<bar>wp - wc\<bar> \<le> 8000000000000000 \<longrightarrow>
         warrantyCommission_d (calculateCommissions_double s)
           = Fin (of_int \<lfloor>(wp - wc) / 1000\<rfloor> * 100))
    \<and> of_int \<lfloor>(wp - wc) / 1000\<rfloor> \<le> (wp - wc) / 1000
    \<and> (wp - wc) / 1000 < of_int \<lfloor>(wp - wc) / 1000\<rfloor> + 1
    \<and> (wp = 500 \<and> wc = 1000 \<longrightarrow>
         warrantyCommission_d (calculateCommissions_double s) = Fin (- 100))"
proof -
  let ?b = "calculateCommissions_double s"
  from assms have t: "truthy (warranty_price s)" "truthy (warranty_cost s)"
    and n: "num (warranty_price s) = wp" "num (warranty_cost s) = wc"
    by (simp_all add: truthy_def num_def)
  have 1: "warrantyCommission_d ?b =
      js_mul (js_floor (js_div (js_sub (Fin wp) (Fin wc)) (Fin 1000))) (Fin 100)"
    using t by (simp only: warranty_d_of n) simp
  have 2: "warrantyCommission_d ?b = Fin (of_int \<lfloor>(wp - wc) / 1000\<rfloor> * 100)"
    if h: "wp - wc \<in> \<int> \<and> \<bar>wp - wc\<bar> \<le> 8000000000000000"
  proof -
    from h obtain p :: int where p: "wp - wc = of_int p" by (auto elim: Ints_cases)
    from h have "(of_int \<bar>p\<bar> :: rat) \<le> of_int 8000000000000000" by (simp add: p)
    then have pb: "\<bar>p\<bar> \<le> 8000000000000000" by (simp only: of_int_le_iff)
    have "\<lfloor>(wp - wc) / 1000\<rfloor> = \<lfloor>(of_int p :: rat) / of_int 1000\<rfloor>" by (simp add: p)
    also have "\<dots> = p div 1000" by (rule floor_divide_of_int_eq)
    finally have f: "\<lfloor>(wp - wc) / 1000\<rfloor> = p div 1000" .
    from p have d: "num (warranty_price s) - num (warranty_cost s) = of_int p" by (simp only: n)
    from warranty_d_exact [OF t d pb] show ?thesis by (simp only: f)
  qed
  have 3: "of_int \<lfloor>(wp - wc) / 1000\<rfloor> \<le> (wp - wc) / 1000" by (rule of_int_floor_le)
  have 4: "(wp - wc) / 1000 < of_int \<lfloor>(wp - wc) / 1000\<rfloor> + 1"
    using floor_correct [of "(wp - wc) / 1000"] by (simp only: of_int_add of_int_1)
  have 5: "warrantyCommission_d ?b = Fin (- 100)" if h: "wp = 500 \<and> wc = 1000"
  proof -
    from h have d: "num (warranty_price s) - num (warranty_cost s) = of_int (- 500)"
      by (simp add: n)
    from warranty_d_exact [OF t d] show ?thesis by simp
  qed
  from 1 2 3 4 5 show ?thesis by blast
qed

theorem C2_warranty_double_witness:
  "warranty_price loss_sale = Some 500 \<and> warranty_cost loss_sale = Some 1000
   \<and> warrantyCommission_d (calculateCommissions_double loss_sale) = Fin (- 100)"
proof -
  have p: "warranty_price loss_sale = Some 500" and c: "warranty_cost loss_sale = Some 1000"
    by (simp_all add: loss_sale_def plain_sale_def)
  have nz: "(500::rat) \<noteq> 0" "(1000::rat) \<noteq> 0" by simp_all
  note th = C2_warranty_double [OF p c nz]
  from th [THEN conjunct2, THEN conjunct2, THEN conjunct2, THEN conjunct2]
  have "warrantyCommission_d (calculateCommissions_double loss_sale) = Fin (- 100)" by simp
  with p c show ?thesis by simp
qed

text \<open>
  C3, as stated: all four components and the total are non-negative. This
  fails for a warranty sold at a loss: with \<open>warranty_price = 500\<close> and
  \<open>warranty_cost = 5000\<close> on a sale of price 5000 the warranty commission is
  \<open>floor(-4.5) * 100 = -500\<close> and the total is \<open>200 - 500 = -300\<close>.
\<close>

theorem C3_counterexample:
  "warrantyCommission_d (calculateCommissions_double deep_loss_sale) = Fin (- 500)
   \<and> totalCommission_d (calculateCommissions_double deep_loss_sale) = Fin (- 300)
   \<and> js_lt (warrantyCommission_d (calculateCommissions_double deep_loss_sale)) (Fin 0)
   \<and> js_lt (totalCommission_d (calculateCommissions_double deep_loss_sale)) (Fin 0)"
  by (simp add: eval_deep_loss_d)

text \<open>
  C3, amended. For every sale, \<open>carCommission\<close> is one of 200, 300, 400,
  500 and \<open>accessoriesCommission\<close> and \<open>maintenanceCommission\<close> are each 0
  or 100, so these three are non-negative integers. \<open>warrantyCommission\<close> and
  \<open>totalCommission\<close> are integers whenever they are finite, and they are
  finite whenever \<open>|warranty_price - warranty_cost| \<le> 2^1000\<close>.
  \<open>warrantyCommission\<close> is negative only if \<open>warranty_price\<close> and
  \<open>warranty_cost\<close> are both present and non-zero and
  \<open>warranty_price < warranty_cost\<close>; and \<open>totalCommission\<close> is not negative
  whenever \<open>warrantyCommission\<close> is not.
\<close>

theorem C3_integers_and_signs:
  "carCommission_d (calculateCommissions_double s) \<in> {Fin 200, Fin 300, Fin 400, Fin 500}
   \<and> accessoriesCommission_d (calculateCommissions_double s) \<in> {Fin 0, Fin 100}
   \<and> maintenanceCommission_d (calculateCommissions_double s) \<in> {Fin 0, Fin 100}
   \<and> (\<forall>w. warrantyCommission_d (calculateCommissions_double s) = Fin w \<longrightarrow> w \<in> \<int>)
   \<and> (\<forall>t. totalCommission_d (calculateCommissions_double s) = Fin t \<longrightarrow> t \<in> \<int>)
   \<and> ((\<forall>p c. warranty_price s = Some p \<and> warranty_cost s = Some c
            \<longrightarrow> \<bar>p - c\<bar> \<le> 2 ^ 1000) \<longrightarrow>
        (\<exists>w t. warrantyCommission_d (calculateCommissions_double s) = Fin w
           \<and> totalCommission_d (calculateCommissions_double s) = Fin t))
   \<and> (js_lt (warrantyCommission_d (calculateCommissions_double s)) (Fin 0) \<longrightarrow>
        (\<exists>p c. warranty_price s = Some p \<and> warranty_cost s = Some c
           \<and> p \<noteq> 0 \<and> c \<noteq> 0 \<and> p < c))
   \<and> (\<not> js_lt (warrantyCommission_d (calculateCommissions_double s)) (Fin 0) \<longrightarrow>
        \<not> js_lt (totalCommission_d (calculateCommissions_double s)) (Fin 0))"
proof -
  let ?b = "calculateCommissions_double s"
  have ints: "\<forall>w. warrantyCommission_d ?b = Fin w \<longrightarrow> w \<in> \<int>"
    "\<forall>t. totalCommission_d ?b = Fin t \<longrightarrow> t \<in> \<int>"
    by (simp_all add: warranty_d_Ints total_d_Ints)
  have fin: "\<exists>w t. warrantyCommission_d ?b = Fin w \<and> totalCommission_d ?b = Fin t"
    if h: "\<forall>p c. warranty_price s = Some p \<and> warranty_cost s = Some c
            \<longrightarrow> \<bar>p - c\<bar> \<le> 2 ^ 1000"
  proof (rule finite_results_gen [of 1000])
    assume a: "truthy (warranty_price s) \<and> truthy (warranty_cost s)"
    then have "truthy (warranty_price s)" by simp
    then obtain p where p: "warranty_price s = Some p" unfolding truthy_Some by blast
    from a have "truthy (warranty_cost s)" by simp
    then obtain c where c: "warranty_cost s = Some c" unfolding truthy_Some by blast
    note pc = p c
    with h have "\<bar>p - c\<bar> \<le> 2 ^ 1000" by blast
    then show "\<bar>num (warranty_price s) - num (warranty_cost s)\<bar> \<le> 2 powi 1000"
      by (simp add: pc num_def)
  qed simp_all
  have neg: "\<exists>p c. warranty_price s = Some p \<and> warranty_cost s = Some c
           \<and> p \<noteq> 0 \<and> c \<noteq> 0 \<and> p < c"
    if h: "js_lt (warrantyCommission_d ?b) (Fin 0)"
  proof (rule ccontr)
    assume n: "\<not> (\<exists>p c. warranty_price s = Some p \<and> warranty_cost s = Some c
           \<and> p \<noteq> 0 \<and> c \<noteq> 0 \<and> p < c)"
    have "\<not> (truthy (warranty_price s) \<and> truthy (warranty_cost s)
      \<and> num (warranty_price s) < num (warranty_cost s))"
    proof
      assume a: "truthy (warranty_price s) \<and> truthy (warranty_cost s)
        \<and> num (warranty_price s) < num (warranty_cost s)"
      from a have "truthy (warranty_price s)" by simp
      then obtain p where p: "warranty_price s = Some p" "p \<noteq> 0"
        unfolding truthy_Some by blast
      from a have "truthy (warranty_cost s)" by simp
      then obtain c where c: "warranty_cost s = Some c" "c \<noteq> 0"
        unfolding truthy_Some by blast
      from a have "p < c" by (simp add: p c num_def)
      with p c n show False by blast
    qed
    from nonneg_not_lt [OF warranty_d_nonneg [OF this]] h show False by blast
  qed
  have tot: "\<not> js_lt (totalCommission_d ?b) (Fin 0)"
    if h: "\<not> js_lt (warrantyCommission_d ?b) (Fin 0)"
  proof -
    from h warranty_d_not_NaN [of s] have "nonneg (warrantyCommission_d ?b)"
      by (rule not_lt_nonneg)
    then have "nonneg (totalCommission_d ?b)" by (rule total_d_nonneg)
    then show ?thesis by (rule nonneg_not_lt)
  qed
  show ?thesis
  proof (intro conjI impI)
    show "carCommission_d ?b \<in> {Fin 200, Fin 300, Fin 400, Fin 500}" by (rule car_d_mem)
    show "accessoriesCommission_d ?b \<in> {Fin 0, Fin 100}" by (rule accessories_d_mem)
    show "maintenanceCommission_d ?b \<in> {Fin 0, Fin 100}" by (rule maintenance_d_mem)
    show "\<forall>w. warrantyCommission_d ?b = Fin w \<longrightarrow> w \<in> \<int>" by (rule ints(1))
    show "\<forall>t. totalCommission_d ?b = Fin t \<longrightarrow> t \<in> \<int>" by (rule ints(2))
    show "\<exists>w t. warrantyCommission_d ?b = Fin w \<and> totalCommission_d ?b = Fin t"
      if "\<forall>p c. warranty_price s = Some p \<and> warranty_cost s = Some c
            \<longrightarrow> \<bar>p - c\<bar> \<le> 2 ^ 1000"
      using that by (rule fin)
    show "\<exists>p c. warranty_price s = Some p \<and> warranty_cost s = Some c
           \<and> p \<noteq> 0 \<and> c \<noteq> 0 \<and> p < c"
      if "js_lt (warrantyCommission_d ?b) (Fin 0)"
      using that by (rule neg)
    show "\<not> js_lt (totalCommission_d ?b) (Fin 0)"
      if "\<not> js_lt (warrantyCommission_d ?b) (Fin 0)"
      using that by (rule tot)
  qed
qed

theorem C3_integers_and_signs_witness:
  "warrantyCommission_d (calculateCommissions_double profit_sale) = Fin 200
   \<and> \<not> js_lt (warrantyCommission_d (calculateCommissions_double profit_sale)) (Fin 0)
   \<and> \<not> js_lt (totalCommission_d (calculateCommissions_double profit_sale)) (Fin 0)"
proof -
  let ?b = "calculateCommissions_double profit_sale"
  have w: "warrantyCommission_d ?b = Fin 200"
    using warranty_d_exact [of profit_sale 2000]
    by (simp add: profit_sale_def plain_sale_def truthy_def num_def)
  then have n: "\<not> js_lt (warrantyCommission_d ?b) (Fin 0)" by simp
  with C3_integers_and_signs [of profit_sale]
  have "\<not> js_lt (totalCommission_d ?b) (Fin 0)" by blast
  with w n show ?thesis by blast
qed




text \<open>
  C5. For every sale, \<open>carCommission\<close> is 200 when \<open>sale_price < 10000\<close>,
  300 when \<open>10000 \<le> sale_price < 20000\<close>, 400 when
  \<open>20000 \<le> sale_price < 30000\<close> and 500 when \<open>sale_price \<ge> 30000\<close>; a
  \<open>sale_price\<close> of exactly 10000 gives 300.
\<close>

theorem C5_car_tiers:
  "(sale_price s < 10000 \<longrightarrow> carCommission (calculateCommissions s) = 200)
   \<and> (10000 \<le> sale_price s \<and> sale_price s < 20000
        \<longrightarrow> carCommission (calculateCommissions s) = 300)
   \<and> (20000 \<le> sale_price s \<and> sale_price s < 30000
        \<longrightarrow> carCommission (calculateCommissions s) = 400)
   \<and> (30000 \<le> sale_price s \<longrightarrow> carCommission (calculateCommissions s) = 500)
   \<and> (sale_price s = 10000 \<longrightarrow> carCommission (calculateCommissions s) = 300)"
  by (simp add: car_of)

theorem C5_car_tiers_witness:
  "sale_price (plain_sale\<lparr>sale_price := 10000\<rparr>) = 10000
   \<and> carCommission (calculateCommissions (plain_sale\<lparr>sale_price := 10000\<rparr>)) = 300
   \<and> carCommission (calculateCommissions (plain_sale\<lparr>sale_price := 9999\<rparr>)) = 200
   \<and> carCommission (calculateCommissions (plain_sale\<lparr>sale_price := 20000\<rparr>)) = 400
   \<and> carCommission (calculateCommissions (plain_sale\<lparr>sale_price := 30000\<rparr>)) = 500"
  using C5_car_tiers [of "plain_sale\<lparr>sale_price := 10000\<rparr>"]
    C5_car_tiers [of "plain_sale\<lparr>sale_price := 9999\<rparr>"]
    C5_car_tiers [of "plain_sale\<lparr>sale_price := 20000\<rparr>"]
    C5_car_tiers [of "plain_sale\<lparr>sale_price := 30000\<rparr>"]
  by simp

text \<open>
  C6. For every sale, \<open>accessoriesCommission\<close> is 100 exactly when
  \<open>accessories_price\<close> is present and non-zero and
  \<open>accessories_price - threshold > 800\<close>, where \<open>threshold\<close> is 988 for
  \<open>sale_type = New\<close> and 488 otherwise; in every other case it is 0. So it
  never exceeds 100.
\<close>

theorem C6_accessories:
  "(accessoriesCommission (calculateCommissions s) = 100 \<longleftrightarrow>
      (\<exists>ap. accessories_price s = Some ap \<and> ap \<noteq> 0
            \<and> ap - (if sale_type s = New then 988 else 488) > 800))
   \<and> (accessoriesCommission (calculateCommissions s) = 0 \<longleftrightarrow>
      \<not> (\<exists>ap. accessories_price s = Some ap \<and> ap \<noteq> 0
            \<and> ap - (if sale_type s = New then 988 else 488) > 800))
   \<and> accessoriesCommission (calculateCommissions s) \<le> 100"
  by (cases "accessories_price s")
     (simp_all add: accessories_of truthy_def num_def)

theorem C6_accessories_witness:
  "accessoriesCommission (calculateCommissions
      (plain_sale\<lparr>sale_type := Used, accessories_price := Some 1289\<rparr>)) = 100
   \<and> accessoriesCommission (calculateCommissions
      (plain_sale\<lparr>sale_type := New, accessories_price := Some 1788\<rparr>)) = 0"
  using C6_accessories [of "plain_sale\<lparr>sale_type := Used, accessories_price := Some 1289\<rparr>"]
    C6_accessories [of "plain_sale\<lparr>sale_type := New, accessories_price := Some 1788\<rparr>"]
  by simp

text \<open>
  C7. For every sale, \<open>maintenanceCommission\<close> is 100 exactly when
  \<open>maintenance_price\<close> is present and strictly greater than 800, and 0
  otherwise; a \<open>maintenance_price\<close> of 800 gives 0 and one of 801 gives 100.
\<close>

theorem C7_maintenance:
  "(maintenanceCommission (calculateCommissions s) = 100 \<longleftrightarrow>
      (\<exists>mp. maintenance_price s = Some mp \<and> mp > 800))
   \<and> (maintenanceCommission (calculateCommissions s) = 0 \<longleftrightarrow>
      \<not> (\<exists>mp. maintenance_price s = Some mp \<and> mp > 800))
   \<and> (maintenance_price s = Some 800 \<longrightarrow> maintenanceCommission (calculateCommissions s) = 0)
   \<and> (maintenance_price s = Some 801 \<longrightarrow> maintenanceCommission (calculateCommissions s) = 100)"
  by (cases "maintenance_price s")
     (auto simp add: maintenance_of truthy_def num_def)

theorem C7_maintenance_witness:
  "maintenanceCommission (calculateCommissions
      (plain_sale\<lparr>maintenance_price := Some 800\<rparr>)) = 0
   \<and> maintenanceCommission (calculateCommissions
      (plain_sale\<lparr>maintenance_price := Some 801\<rparr>)) = 100"
  using C7_maintenance [of "plain_sale\<lparr>maintenance_price := Some 800\<rparr>"]
    C7_maintenance [of "plain_sale\<lparr>maintenance_price := Some 801\<rparr>"]
  by simp

text \<open>
  C8. The source of \<open>calculateCommissions\<close> has no \<open>throw\<close> and only reads
  members of its argument, so its model is a function without an error
  result, defined on every \<open>SaleEntry\<close>. For every sale, an absent
  \<open>accessories_price\<close> gives \<open>accessoriesCommission = 0\<close>, an absent
  \<open>warranty_price\<close> or \<open>warranty_cost\<close> gives \<open>warrantyCommission = 0\<close>,
  and an absent \<open>maintenance_price\<close> gives \<open>maintenanceCommission = 0\<close>;
  with all four absent the breakdown is the car commission alone.
\<close>

theorem C8_absent_fields_contribute_zero:
  "(accessories_price s = None \<longrightarrow> accessoriesCommission (calculateCommissions s) = 0)
   \<and> (warranty_price s = None \<longrightarrow> warrantyCommission (calculateCommissions s) = 0)
   \<and> (warranty_cost s = None \<longrightarrow> warrantyCommission (calculateCommissions s) = 0)
   \<and> (maintenance_price s = None \<longrightarrow> maintenanceCommission (calculateCommissions s) = 0)
   \<and> (accessories_price s = None \<and> warranty_price s = None \<and> warranty_cost s = None
        \<and> maintenance_price s = None \<longrightarrow>
        calculateCommissions s =
          \<lparr> carCommission = carCommission (calculateCommissions s),
            accessoriesCommission = 0, warrantyCommission = 0, maintenanceCommission = 0,
            totalCommission = carCommission (calculateCommissions s) \<rparr>)"
  by (simp add: accessories_of warranty_of maintenance_of truthy_def)
     (simp add: calculateCommissions_def Let_def truthy_def)

theorem C8_absent_fields_contribute_zero_witness:
  "calculateCommissions plain_sale =
     \<lparr> carCommission = 200, accessoriesCommission = 0, warrantyCommission = 0,
       maintenanceCommission = 0, totalCommission = 200 \<rparr>"
proof -
  have abs: "accessories_price plain_sale = None" "warranty_price plain_sale = None"
    "warranty_cost plain_sale = None" "maintenance_price plain_sale = None"
    by (simp_all add: plain_sale_def)
  have car: "carCommission (calculateCommissions plain_sale) = 200"
    by (simp add: car_of plain_sale_def)
  from C8_absent_fields_contribute_zero [of plain_sale] abs
  have "calculateCommissions plain_sale =
          \<lparr> carCommission = carCommission (calculateCommissions plain_sale),
            accessoriesCommission = 0, warrantyCommission = 0, maintenanceCommission = 0,
            totalCommission = carCommission (calculateCommissions plain_sale) \<rparr>"
    by blast
  then show ?thesis by (simp only: car)
qed

text \<open>
  C9. Two sales that agree on \<open>sale_price\<close>, \<open>sale_type\<close>,
  \<open>accessories_price\<close>, \<open>warranty_price\<close>, \<open>warranty_cost\<close> and
  \<open>maintenance_price\<close> have equal breakdowns, whatever their other members
  (\<open>maintenance_cost\<close>, \<open>id\<close>, \<open>user_id\<close>, \<open>stock_number\<close>,
  \<open>customer_name\<close>, the sharing members and \<open>date\<close>) hold.
\<close>

theorem C9_depends_on_six_fields:
  assumes "sale_price s = sale_price t" and "sale_type s = sale_type t"
    and "accessories_price s = accessories_price t"
    and "warranty_price s = warranty_price t" and "warranty_cost s = warranty_cost t"
    and "maintenance_price s = maintenance_price t"
  shows "calculateCommissions s = calculateCommissions t"
  using assms by (simp add: calculateCommissions_def)

theorem C9_depends_on_six_fields_witness:
  "id_field full_sale \<noteq> id_field full_sale_relabelled
   \<and> maintenance_cost full_sale \<noteq> maintenance_cost full_sale_relabelled
   \<and> calculateCommissions full_sale = calculateCommissions full_sale_relabelled"
proof -
  have "calculateCommissions full_sale = calculateCommissions full_sale_relabelled"
    by (rule C9_depends_on_six_fields) (simp_all add: full_sale_def full_sale_relabelled_def)
  then show ?thesis by (simp add: full_sale_def full_sale_relabelled_def)
qed

text \<open>
  C10, as stated: each component and the total is an integer multiple of 100.
  This fails when the warranty commission exceeds \<open>2^53\<close>: with
  \<open>warranty_price = 4e17\<close> and \<open>warranty_cost = 1000\<close> (both doubles) the
  quotient floors to 399999999999999, whose product with 100 is not a double
  and rounds to 39999999999999904; the total is 40000000000000104. Both leave
  the remainder 4 on division by 100.
\<close>

theorem C10_counterexample:
  "is_double 400000000000000000 \<and> is_double 1000
   \<and> warranty_price large_warranty_sale = Some 400000000000000000
   \<and> warranty_cost large_warranty_sale = Some 1000
   \<and> warrantyCommission_d (calculateCommissions_double large_warranty_sale)
        = Fin (of_int 39999999999999904)
   \<and> totalCommission_d (calculateCommissions_double large_warranty_sale)
        = Fin (of_int 40000000000000104)
   \<and> (39999999999999904 :: int) mod 100 = 4
   \<and> (40000000000000104 :: int) mod 100 = 4"
proof -
  have "warranty_price large_warranty_sale = Some 400000000000000000"
    "warranty_cost large_warranty_sale = Some 1000"
    by (simp_all add: large_warranty_sale_def plain_sale_def)
  with large_inputs_are_doubles(3,4) show ?thesis by (simp add: eval_large_warranty)
qed

text \<open>
  C10, amended. For every sale, \<open>carCommission\<close> is one of 200, 300, 400,
  500, and \<open>accessoriesCommission\<close> and \<open>maintenanceCommission\<close> are each 0
  or 100. Whenever \<open>warrantyCommission\<close> is at most \<open>9 * 10^15\<close> in
  absolute value, \<open>warrantyCommission\<close> and \<open>totalCommission\<close> are integer
  multiples of 100.
\<close>

theorem C10_multiples_of_100:
  "carCommission_d (calculateCommissions_double s) \<in> {Fin 200, Fin 300, Fin 400, Fin 500}
   \<and> accessoriesCommission_d (calculateCommissions_double s) \<in> {Fin 0, Fin 100}
   \<and> maintenanceCommission_d (calculateCommissions_double s) \<in> {Fin 0, Fin 100}
   \<and> (\<forall>w. warrantyCommission_d (calculateCommissions_double s) = Fin w
          \<and> \<bar>w\<bar> \<le> 9000000000000000 \<longrightarrow>
        (\<exists>k::int. w = of_int k * 100)
        \<and> (\<exists>k::int. totalCommission_d (calculateCommissions_double s)
              = Fin (of_int k * 100)))"
proof -
  let ?b = "calculateCommissions_double s"
  have "(\<exists>k::int. w = of_int k * 100)
        \<and> (\<exists>k::int. totalCommission_d ?b = Fin (of_int k * 100))"
    if h: "warrantyCommission_d ?b = Fin w \<and> \<bar>w\<bar> \<le> 9000000000000000" for w
  proof -
    from h have w: "warrantyCommission_d ?b = Fin w" and wb: "\<bar>w\<bar> \<le> 9000000000000000"
      by simp_all
    from warranty_d_small [OF w wb] obtain k :: int
      where k: "w = of_int k * 100" and kb: "\<bar>k * 100\<bar> \<le> 9000000000000000" by blast
    from k have w': "warrantyCommission_d ?b = Fin (of_int (k * 100))" by (simp add: w)
    obtain c :: int where c: "carCommission_d ?b = Fin (of_int c)" "c \<in> {200, 300, 400, 500}"
      using car_d_int [of s] by blast
    obtain a :: int where a: "accessoriesCommission_d ?b = Fin (of_int a)" "a \<in> {0, 100}"
      using accessories_d_int [of s] by blast
    obtain m :: int where m: "maintenanceCommission_d ?b = Fin (of_int m)" "m \<in> {0, 100}"
      using maintenance_d_int [of s] by blast
    have t: "totalCommission_d ?b = Fin (of_int (c + a + k * 100 + m))"
      by (rule total_d_small [OF w' kb c a m])
    from c(2) a(2) m(2) have "100 dvd c + a + m" by auto
    then obtain d where d: "c + a + m = 100 * d" ..
    have "c + a + k * 100 + m = (c + a + m) + k * 100" by simp
    also have "\<dots> = (d + k) * 100" by (simp only: d) (simp add: algebra_simps)
    finally obtain j :: int where "c + a + k * 100 + m = j * 100" ..
    with t have "totalCommission_d ?b = Fin (of_int j * 100)" by simp
    with k show ?thesis by blast
  qed
  then have "\<forall>w. warrantyCommission_d ?b = Fin w
          \<and> \<bar>w\<bar> \<le> 9000000000000000 \<longrightarrow>
        (\<exists>k::int. w = of_int k * 100)
        \<and> (\<exists>k::int. totalCommission_d ?b = Fin (of_int k * 100))" by blast
  with car_d_mem [of s] accessories_d_mem [of s] maintenance_d_mem [of s]
  show ?thesis by (intro conjI)
qed

theorem C10_multiples_of_100_witness:
  "warrantyCommission_d (calculateCommissions_double full_sale) = Fin 200
   \<and> (\<exists>k::int. (200 :: rat) = of_int k * 100)
   \<and> (\<exists>k::int. totalCommission_d (calculateCommissions_double full_sale)
         = Fin (of_int k * 100))"
proof -
  let ?b = "calculateCommissions_double full_sale"
  have w: "warrantyCommission_d ?b = Fin 200"
    using warranty_d_exact [of full_sale 2000]
    by (simp add: full_sale_def truthy_def num_def)
  have "\<bar>200 :: rat\<bar> \<le> 9000000000000000" by simp
  with C10_multiples_of_100 [of full_sale] w show ?thesis by blast
qed

end
